theory Spec2Isabelle
  imports Complex_Main
begin

section \<open>Values: errors, arrays and scalar results\<close>

text \<open>
  The Python exceptions that the module and the numpy calls it makes can raise.
  The argument is the message.
\<close>

datatype error =
    TypeError string
  | ValueError string
  | NameError string
  | IndexError string

text \<open>
  Array entries are exact reals: rounding and overflow of float64 are outside this
  development. A true division by a zero divisor does not raise in numpy; it yields
  one of the IEEE values inf, -inf or nan. These are kept apart from the finite
  values by one token, so that the model never reports HOL's \<open>x / 0 = 0\<close> as a
  result of the program.
\<close>

datatype npfloat = Finite real | NonFinite

definition true_divide :: "real \<Rightarrow> real \<Rightarrow> npfloat" where
  "true_divide a b = (if b = 0 then NonFinite else Finite (a / b))"

definition rsub :: "real \<Rightarrow> npfloat \<Rightarrow> npfloat" where
  "rsub c x = (case x of Finite r \<Rightarrow> Finite (c - r) | NonFinite \<Rightarrow> NonFinite)"

text \<open>
  A numpy array: its shape and its entries in row-major (C) order.
\<close>

datatype ndarray = NDArray (shape: "nat list") (data: "real list")

definition ndim :: "ndarray \<Rightarrow> nat" where
  "ndim a = length (shape a)"

definition size_of :: "ndarray \<Rightarrow> nat" where
  "size_of a = prod_list (shape a)"

definition wf_array :: "ndarray \<Rightarrow> bool" where
  "wf_array a = (length (data a) = size_of a)"

text \<open>
  Index tuples of a shape, in row-major order, and the offset of an index tuple in
  the flat data. \<open>lookup\<close> reads \<open>a[i0, i1, ...]\<close>; \<open>tabulate\<close> builds the array
  that holds \<open>f idx\<close> at every index tuple of the shape.
\<close>

definition all_indices :: "nat list \<Rightarrow> nat list list" where
  "all_indices sh = product_lists (map (\<lambda>d. [0..<d]) sh)"

fun flat_index :: "nat list \<Rightarrow> nat list \<Rightarrow> nat" where
  "flat_index (d # ds) (i # js) = i * prod_list ds + flat_index ds js"
| "flat_index _ _ = 0"

definition valid_index :: "nat list \<Rightarrow> nat list \<Rightarrow> bool" where
  "valid_index sh idx = list_all2 (\<lambda>i d. i < d) idx sh"

definition lookup :: "ndarray \<Rightarrow> nat list \<Rightarrow> real" where
  "lookup a idx = data a ! flat_index (shape a) idx"

definition tabulate :: "nat list \<Rightarrow> (nat list \<Rightarrow> real) \<Rightarrow> ndarray" where
  "tabulate sh f = NDArray sh (map f (all_indices sh))"

text \<open>Sequencing of calls that may raise: the first exception ends the run.\<close>

definition and_then :: "error + 'a \<Rightarrow> ('a \<Rightarrow> error + 'b) \<Rightarrow> error + 'b" where
  "and_then m f = (case m of Inl e \<Rightarrow> Inl e | Inr x \<Rightarrow> f x)"

section \<open>The numpy operations the module calls\<close>

text \<open>\<open>np.sum(a)\<close>, \<open>a ** 2\<close>, \<open>np.abs(a)\<close>, \<open>np.zeros(shape)\<close>.\<close>

definition np_sum :: "ndarray \<Rightarrow> real" where
  "np_sum a = sum_list (data a)"

definition square :: "ndarray \<Rightarrow> ndarray" where
  "square a = NDArray (shape a) (map (\<lambda>x. x ^ 2) (data a))"

definition np_abs :: "ndarray \<Rightarrow> ndarray" where
  "np_abs a = NDArray (shape a) (map abs (data a))"

definition np_zeros :: "nat list \<Rightarrow> ndarray" where
  "np_zeros sh = tabulate sh (\<lambda>idx. 0)"

text \<open>
  Broadcasting of two shapes: they are aligned at their last axes; two aligned
  dimensions must be equal or one of them must be 1. The functions below work on
  the reversed shapes. \<open>bidx sh idx\<close> is the index tuple at which an operand of
  shape \<open>sh\<close> is read for the entry \<open>idx\<close> of the broadcast result.
\<close>

fun bshape_rev :: "nat list \<Rightarrow> nat list \<Rightarrow> nat list option" where
  "bshape_rev [] ys = Some ys"
| "bshape_rev (x # xs) [] = Some (x # xs)"
| "bshape_rev (x # xs) (y # ys) =
     (if x = y \<or> y = 1 then map_option ((#) x) (bshape_rev xs ys)
      else if x = 1 then map_option ((#) y) (bshape_rev xs ys)
      else None)"

definition broadcast_shapes :: "nat list \<Rightarrow> nat list \<Rightarrow> nat list option" where
  "broadcast_shapes s1 s2 = map_option rev (bshape_rev (rev s1) (rev s2))"

definition bidx :: "nat list \<Rightarrow> nat list \<Rightarrow> nat list" where
  "bidx sh idx = map2 (\<lambda>d i. if d = 1 then 0 else i) sh (drop (length idx - length sh) idx)"

text \<open>\<open>a - b\<close> on arrays.\<close>

definition np_subtract :: "ndarray \<Rightarrow> ndarray \<Rightarrow> error + ndarray" where
  "np_subtract a b =
     (case broadcast_shapes (shape a) (shape b) of
        None \<Rightarrow> Inl (ValueError ''operands could not be broadcast together'')
      | Some sh \<Rightarrow>
          Inr (tabulate sh (\<lambda>idx. lookup a (bidx (shape a) idx) - lookup b (bidx (shape b) idx))))"

text \<open>
  \<open>a *= b\<close> on arrays: the product is written into \<open>a\<close>, so the broadcast shape has
  to be the shape of \<open>a\<close>. The value returned is the new content of \<open>a\<close>.
\<close>

definition np_imultiply :: "ndarray \<Rightarrow> ndarray \<Rightarrow> error + ndarray" where
  "np_imultiply a b =
     (case broadcast_shapes (shape a) (shape b) of
        None \<Rightarrow> Inl (ValueError ''operands could not be broadcast together'')
      | Some sh \<Rightarrow>
          if sh = shape a
          then Inr (tabulate sh (\<lambda>idx. lookup a idx * lookup b (bidx (shape b) idx)))
          else Inl (ValueError ''non-broadcastable output operand''))"

text \<open>\<open>a.reshape(sh)\<close> for an explicit shape, and \<open>a.reshape(1, -1)\<close>.\<close>

definition reshape :: "ndarray \<Rightarrow> nat list \<Rightarrow> error + ndarray" where
  "reshape a sh =
     (if prod_list sh = size_of a then Inr (NDArray sh (data a))
      else Inl (ValueError ''cannot reshape array''))"

definition reshape_row :: "ndarray \<Rightarrow> ndarray" where
  "reshape_row a = NDArray [1, size_of a] (data a)"

text \<open>\<open>a.T\<close> reverses the axes.\<close>

definition transpose_nd :: "ndarray \<Rightarrow> ndarray" where
  "transpose_nd a = tabulate (rev (shape a)) (\<lambda>idx. lookup a (rev idx))"

text \<open>
  \<open>np.tensordot(a, x, (1, x.ndim - 1))\<close>: axis 1 of \<open>a\<close> is summed against the last
  axis of \<open>x\<close>. The result has the remaining axes of \<open>a\<close> followed by the remaining
  axes of \<open>x\<close>. numpy reads \<open>a.shape[1]\<close> and \<open>x.shape[-1]\<close> first (IndexError when
  one is missing) and raises ValueError when they differ.
\<close>

definition tensordot_1_last :: "ndarray \<Rightarrow> ndarray \<Rightarrow> error + ndarray" where
  "tensordot_1_last a x =
     (if ndim a < 2 \<or> ndim x < 1 then Inl (IndexError ''tuple index out of range'')
      else if shape a ! 1 \<noteq> last (shape x) then Inl (ValueError ''shape-mismatch for sum'')
      else
        let na = ndim a - 1;
            d = last (shape x)
        in Inr (tabulate (hd (shape a) # drop 2 (shape a) @ butlast (shape x))
                 (\<lambda>idx. \<Sum>j\<leftarrow>[0..<d].
                    lookup a (hd idx # j # tl (take na idx)) * lookup x (drop na idx @ [j]))))"

text \<open>
  \<open>a @ b\<close> for two 2-D arrays. (Operands of other dimensions, which numpy treats as
  vectors or stacks of matrices, are reported as an error: the module applies \<open>@\<close>
  to matrices only.)
\<close>

definition matmul :: "ndarray \<Rightarrow> ndarray \<Rightarrow> error + ndarray" where
  "matmul a b =
     (if ndim a \<noteq> 2 \<or> ndim b \<noteq> 2 then Inl (ValueError ''matmul: operands are not 2-D'')
      else if shape a ! 1 \<noteq> shape b ! 0 then Inl (ValueError ''matmul: dimension mismatch'')
      else Inr (tabulate [shape a ! 0, shape b ! 1]
                 (\<lambda>idx. \<Sum>k\<leftarrow>[0..<shape a ! 1]. lookup a [idx ! 0, k] * lookup b [k, idx ! 1])))"

text \<open>
  \<open>np.diag(v)\<close>: the square matrix with a 1-D \<open>v\<close> on its diagonal, or the diagonal
  of a 2-D \<open>v\<close>. \<open>np.diagonal(a)\<close>: the diagonal over the first two axes of a 2-D
  array.
\<close>

definition np_diag :: "ndarray \<Rightarrow> error + ndarray" where
  "np_diag v =
     (if ndim v = 1
      then Inr (tabulate [hd (shape v), hd (shape v)]
                  (\<lambda>idx. if idx ! 0 = idx ! 1 then lookup v [idx ! 0] else 0))
      else if ndim v = 2
      then Inr (tabulate [min (shape v ! 0) (shape v ! 1)] (\<lambda>idx. lookup v [idx ! 0, idx ! 0]))
      else Inl (ValueError ''Input must be 1- or 2-d.''))"

definition np_diagonal :: "ndarray \<Rightarrow> error + ndarray" where
  "np_diagonal a =
     (if ndim a = 2
      then Inr (tabulate [min (shape a ! 0) (shape a ! 1)] (\<lambda>idx. lookup a [idx ! 0, idx ! 0]))
      else Inl (ValueError ''diag requires an array of at least two dimensions''))"

text \<open>
  \<open>np.fill_diagonal(a, val)\<close> writes \<open>val\<close> at the entries whose indices are all
  equal. It needs at least two axes, and equal dimensions when there are more than
  two. The value returned is the new content of \<open>a\<close>.
\<close>

definition all_equal :: "nat list \<Rightarrow> bool" where
  "all_equal idx = list_all (\<lambda>i. i = hd idx) idx"

definition fill_diagonal :: "ndarray \<Rightarrow> real \<Rightarrow> error + ndarray" where
  "fill_diagonal a val =
     (if ndim a < 2 then Inl (ValueError ''array must be at least 2-d'')
      else if ndim a > 2 \<and> \<not> all_equal (shape a)
      then Inl (ValueError ''All dimensions of input must be of equal length'')
      else Inr (tabulate (shape a) (\<lambda>idx. if all_equal idx then val else lookup a idx)))"

text \<open>
  \<open>np.ascontiguousarray(a)\<close> keeps the entries; a 0-d array comes back with one
  axis of length 1.
\<close>

definition ascontiguousarray :: "ndarray \<Rightarrow> ndarray" where
  "ascontiguousarray a = (if shape a = [] then NDArray [1] (data a) else a)"

text \<open>
  The truth value of an array (\<open>if a:\<close>): an array with several entries has none,
  an array with one entry has that of its entry, an empty array is false (with a
  deprecation warning in the numpy releases this module was written for).
\<close>

definition truth_value :: "ndarray \<Rightarrow> error + bool" where
  "truth_value a =
     (if size_of a = 0 then Inr False
      else if size_of a = 1 then Inr (hd (data a) \<noteq> 0)
      else Inl (ValueError
        ''The truth value of an array with more than one element is ambiguous. Use a.any() or a.all()''))"

section \<open>The module \<open>model_evaluation\<close>\<close>

text \<open>
  A CP tensor is the pair \<open>(weights, factors)\<close>; the weights may be \<open>None\<close>.
\<close>

type_synonym cp_tensor = "ndarray option \<times> ndarray list"

text \<open>
  \<open>factors[0].shape[1]\<close>: IndexError when there is no factor matrix or when the
  first one has fewer than two axes.
\<close>

definition rank_of :: "ndarray list \<Rightarrow> error + nat" where
  "rank_of factors =
     (case factors of
        [] \<Rightarrow> Inl (IndexError ''tuple index out of range'')
      | f # _ \<Rightarrow> if ndim f < 2 then Inl (IndexError ''tuple index out of range'')
                 else Inr (shape f ! 1))"

subsection \<open>\<open>estimate_core_tensor\<close>\<close>

text \<open>
  \<open>scipy.linalg.svd(factor, full_matrices=False)\<close> is a library routine: the
  functions below take it as the parameter \<open>svd\<close>, which returns \<open>(U, s, Vh)\<close> or
  raises.
\<close>

type_synonym svd_result = "ndarray \<times> ndarray \<times> ndarray"

type_synonym svd_fun = "ndarray \<Rightarrow> error + svd_result"

text \<open>The list comprehension \<open>[sla.svd(factor, ...) for factor in factors]\<close>.\<close>

fun svd_all :: "svd_fun \<Rightarrow> ndarray list \<Rightarrow> error + svd_result list" where
  "svd_all svd [] = Inr []"
| "svd_all svd (f # fs) =
     and_then (svd f) (\<lambda>t. and_then (svd_all svd fs) (\<lambda>ts. Inr (t # ts)))"

text \<open>A \<open>for\<close> loop over the decompositions that rebinds \<open>X\<close> in every round.\<close>

fun for_each :: "(svd_result \<Rightarrow> ndarray \<Rightarrow> error + ndarray) \<Rightarrow> svd_result list \<Rightarrow> ndarray
    \<Rightarrow> error + ndarray" where
  "for_each body [] x = Inr x"
| "for_each body (t # ts) x = and_then (body t x) (for_each body ts)"

text \<open>
  \<open>s_pinv = s.copy(); mask = s_pinv != 0; s_pinv[mask] = 1 / s_pinv[mask]\<close>:
  the reciprocal is taken at the nonzero entries only.
\<close>

definition s_pinv :: "ndarray \<Rightarrow> ndarray" where
  "s_pinv s = NDArray (shape s) (map (\<lambda>x. if x \<noteq> 0 then 1 / x else x) (data s))"

definition contract_U :: "svd_result \<Rightarrow> ndarray \<Rightarrow> error + ndarray" where
  "contract_U t x = (case t of (U, s, Vh) \<Rightarrow> tensordot_1_last (transpose_nd U) x)"

definition scale_s :: "svd_result \<Rightarrow> ndarray \<Rightarrow> error + ndarray" where
  "scale_s t x =
     (case t of (U, s, Vh) \<Rightarrow> and_then (np_diag (s_pinv s)) (\<lambda>d. tensordot_1_last d x))"

definition contract_Vh :: "svd_result \<Rightarrow> ndarray \<Rightarrow> error + ndarray" where
  "contract_Vh t x = (case t of (U, s, Vh) \<Rightarrow> tensordot_1_last (transpose_nd Vh) x)"

definition estimate_core_tensor :: "svd_fun \<Rightarrow> ndarray list \<Rightarrow> ndarray \<Rightarrow> error + ndarray" where
  "estimate_core_tensor svd factors X =
     and_then (svd_all svd factors) (\<lambda>svds.
     and_then (for_each contract_U (rev svds) X) (\<lambda>X1.
     and_then (for_each scale_s (rev svds) X1) (\<lambda>X2.
     and_then (for_each contract_Vh (rev svds) X2) (\<lambda>X3.
     Inr (ascontiguousarray X3)))))"

subsection \<open>\<open>core_consistency\<close>\<close>

text \<open>
  \<open>A = factors[0].copy()\<close> followed by \<open>A *= weights.reshape(1, -1)\<close> when the
  weights are given.
\<close>

definition distribute_weights :: "ndarray option \<Rightarrow> ndarray \<Rightarrow> error + ndarray" where
  "distribute_weights weights f0 =
     (case weights of
        None \<Rightarrow> Inr f0
      | Some w \<Rightarrow> np_imultiply f0 (reshape_row w))"

definition core_consistency :: "svd_fun \<Rightarrow> cp_tensor \<Rightarrow> ndarray \<Rightarrow> bool \<Rightarrow> error + npfloat" where
  "core_consistency svd cp_tensor X normalised =
     (case cp_tensor of (weights, factors) \<Rightarrow>
     and_then (rank_of factors) (\<lambda>rank.
     and_then (distribute_weights weights (hd factors)) (\<lambda>A.
     and_then (estimate_core_tensor svd (A # tl factors) X) (\<lambda>G.
     and_then (fill_diagonal (np_zeros (replicate (ndim X) rank)) 1) (\<lambda>T.
     let denom = (if normalised then np_sum (square G) else real rank)
     in and_then (np_subtract G T) (\<lambda>D.
        Inr (rsub 100 (true_divide (100 * np_sum (square D)) denom))))))))"

subsection \<open>\<open>sse\<close>, \<open>relative_sse\<close>, \<open>fit\<close>\<close>

text \<open>
  \<open>construct_cp_tensor\<close> is imported from the module \<open>factor_tools\<close>; the three
  functions take it as a parameter.
\<close>

type_synonym construct_fun = "cp_tensor \<Rightarrow> error + ndarray"

definition sse :: "construct_fun \<Rightarrow> cp_tensor \<Rightarrow> ndarray \<Rightarrow> error + real" where
  "sse construct_cp_tensor cp_tensor X =
     and_then (construct_cp_tensor cp_tensor) (\<lambda>X_hat.
     and_then (np_subtract X X_hat) (\<lambda>D.
     Inr (np_sum (square D))))"

text \<open>
  The parameter \<open>sum_squared_X\<close> (default \<open>None\<close>) is accepted; the body assigns
  \<open>sum_squared_x = np.sum(X ** 2)\<close> and divides by that.
\<close>

definition relative_sse :: "construct_fun \<Rightarrow> cp_tensor \<Rightarrow> ndarray \<Rightarrow> real option
    \<Rightarrow> error + npfloat" where
  "relative_sse construct_cp_tensor cp_tensor X sum_squared_X =
     (let sum_squared_x = np_sum (square X)
      in and_then (sse construct_cp_tensor cp_tensor X) (\<lambda>e. Inr (true_divide e sum_squared_x)))"

definition fit :: "construct_fun \<Rightarrow> cp_tensor \<Rightarrow> ndarray \<Rightarrow> real option \<Rightarrow> error + npfloat" where
  "fit construct_cp_tensor cp_tensor X sum_squared_X =
     and_then (relative_sse construct_cp_tensor cp_tensor X sum_squared_X) (\<lambda>r. Inr (rsub 1 r))"

subsection \<open>\<open>classification_accuracy\<close>\<close>

text \<open>
  The classifier is any object with \<open>fit\<close>, \<open>score\<close> and \<open>predict\<close>. \<open>fit\<close> changes
  the object, so the methods work on its state \<open>'c\<close>; each of them may raise.
  The function returns the value together with the state the classifier is left in.
\<close>

record ('c, 'x, 'y, 'r, 'e) classifier =
  clf_fit :: "'c \<Rightarrow> 'x \<Rightarrow> 'y \<Rightarrow> 'e + 'c"
  clf_score :: "'c \<Rightarrow> 'x \<Rightarrow> 'y \<Rightarrow> 'e + 'r"
  clf_predict :: "'c \<Rightarrow> 'x \<Rightarrow> 'e + 'y"

definition classification_accuracy ::
  "('c, 'x, 'y, 'r, 'e) classifier \<Rightarrow> 'c \<Rightarrow> 'x \<Rightarrow> 'y \<Rightarrow> ('y \<Rightarrow> 'y \<Rightarrow> 'e + 'r) option
     \<Rightarrow> ('e + 'r) \<times> 'c" where
  "classification_accuracy classifier c factor_matrix labels metric =
     (case clf_fit classifier c factor_matrix labels of
        Inl e \<Rightarrow> (Inl e, c)
      | Inr c' \<Rightarrow>
          (case metric of
             None \<Rightarrow> (clf_score classifier c' factor_matrix labels, c')
           | Some m \<Rightarrow>
               (case clf_predict classifier c' factor_matrix of
                  Inl e \<Rightarrow> (Inl e, c')
                | Inr predicted \<Rightarrow> (m labels predicted, c'))))"

subsection \<open>\<open>percentage_variation\<close>\<close>

text \<open>
  \<open>np.ones(rank, rank)\<close> passes the rank as the \<open>dtype\<close> argument, which numpy
  rejects for every integer. The name \<open>weight\<close> is bound nowhere in the module.
\<close>

definition np_ones_dtype :: "nat \<Rightarrow> nat \<Rightarrow> error + ndarray" where
  "np_ones_dtype sh dtype = Inl (TypeError ''Cannot interpret the integer as a data type'')"

definition name_weight :: "error + ndarray" where
  "name_weight = Inl (NameError ''name 'weight' is not defined'')"

text \<open>
  The \<open>if weights: ... else: ...\<close> that builds the first \<open>temp\<close>. \<open>None\<close> is false;
  an array is asked for its truth value.
\<close>

definition weighted_temp :: "ndarray \<Rightarrow> nat \<Rightarrow> error + ndarray" where
  "weighted_temp weights rank =
     and_then (reshape weights [rank, 1]) (\<lambda>col.
     and_then name_weight (\<lambda>weight.
     and_then (reshape weight [1, rank]) (\<lambda>row. matmul col row)))"

definition initial_temp :: "ndarray option \<Rightarrow> nat \<Rightarrow> error + ndarray" where
  "initial_temp weights rank =
     (case weights of
        None \<Rightarrow> np_ones_dtype rank rank
      | Some w \<Rightarrow>
          and_then (truth_value w) (\<lambda>b.
            if b then weighted_temp w rank else np_ones_dtype rank rank))"

text \<open>The loop \<open>for factor_matrix in factor_matrices: temp *= factor_matrix.T @ factor_matrix\<close>.\<close>

fun cross_products :: "ndarray list \<Rightarrow> ndarray \<Rightarrow> error + ndarray" where
  "cross_products [] temp = Inr temp"
| "cross_products (f # fs) temp =
     and_then (matmul (transpose_nd f) f) (\<lambda>g.
     and_then (np_imultiply temp g) (cross_products fs))"

text \<open>An array divided by a scalar, entry by entry.\<close>

definition divide_by :: "ndarray \<Rightarrow> real \<Rightarrow> npfloat list" where
  "divide_by a c = map (\<lambda>x. true_divide x c) (data a)"

datatype pv_result = Fit "npfloat list" | FitBoth "npfloat list" "npfloat list"

definition percentage_variation :: "cp_tensor \<Rightarrow> ndarray option \<Rightarrow> string \<Rightarrow> error + pv_result" where
  "percentage_variation cp_tensor X method =
     (case cp_tensor of (weights, factor_matrices) \<Rightarrow>
     and_then (rank_of factor_matrices) (\<lambda>rank.
     and_then (initial_temp weights rank) (\<lambda>temp0.
     and_then (cross_products factor_matrices temp0) (\<lambda>temp.
     and_then (np_diagonal temp) (\<lambda>dg.
     let ssc = np_abs dg in
     if method = ''data'' then
       (case X of
          None \<Rightarrow> Inl (TypeError ''The dataset must be provided if ``method='data'``'')
        | Some x \<Rightarrow> Inr (Fit (divide_by ssc (np_sum (square x)))))
     else if method = ''model'' then
       Inr (Fit (divide_by ssc (abs (np_sum temp))))
     else if method = ''both'' then
       (case X of
          None \<Rightarrow> Inl (TypeError ''unsupported operand type(s) for ** or pow(): NoneType and int'')
        | Some x \<Rightarrow> Inr (FitBoth (divide_by ssc (np_sum (square x)))
                                  (divide_by ssc (abs (np_sum temp)))))
     else Inl (ValueError ''Method must be either 'data', 'model' or 'both''))))))"

section \<open>The functions as the specification describes them\<close>

text \<open>
  Contraction of a tensor along one mode with a matrix: the axis \<open>k\<close> of \<open>x\<close> is
  summed against the second axis of \<open>m\<close>, and the first axis of \<open>m\<close> takes its
  place; the other axes stay where they are.
\<close>

definition mode_product :: "nat \<Rightarrow> ndarray \<Rightarrow> ndarray \<Rightarrow> ndarray" where
  "mode_product k m x =
     tabulate ((shape x)[k := hd (shape m)])
       (\<lambda>idx. \<Sum>j\<leftarrow>[0..<shape x ! k]. lookup m [idx ! k, j] * lookup x (idx[k := j]))"

text \<open>Scaling along mode \<open>k\<close> by the entries of a vector.\<close>

definition scale_mode :: "nat \<Rightarrow> ndarray \<Rightarrow> ndarray \<Rightarrow> ndarray" where
  "scale_mode k v x = tabulate (shape x) (\<lambda>idx. lookup v [idx ! k] * lookup x idx)"

text \<open>
  The elementwise pseudo-inverse of the singular values: a zero singular value is
  mapped to zero, every other one to its reciprocal.
\<close>

definition pseudo_inverse :: "ndarray \<Rightarrow> ndarray" where
  "pseudo_inverse s = NDArray (shape s) (map (\<lambda>x. if x = 0 then 0 else inverse x) (data s))"

text \<open>
  One step for every mode, in the order of the modes; then the three passes of the
  core estimation: contract every mode with \<open>U\<close> transposed, scale every mode by the
  pseudo-inverse of \<open>s\<close>, contract every mode with \<open>Vh\<close> transposed.
\<close>

definition along_modes :: "(nat \<Rightarrow> svd_result \<Rightarrow> ndarray \<Rightarrow> ndarray) \<Rightarrow> svd_result list
    \<Rightarrow> ndarray \<Rightarrow> ndarray" where
  "along_modes f svds x = fold (\<lambda>k. f k (svds ! k)) [0..<length svds] x"

definition core_by_modes :: "svd_result list \<Rightarrow> ndarray \<Rightarrow> ndarray" where
  "core_by_modes svds X =
     (let X1 = along_modes (\<lambda>k t. case t of (U, s, Vh) \<Rightarrow> mode_product k (transpose_nd U)) svds X;
          X2 = along_modes (\<lambda>k t. case t of (U, s, Vh) \<Rightarrow> scale_mode k (pseudo_inverse s)) svds X1
      in along_modes (\<lambda>k t. case t of (U, s, Vh) \<Rightarrow> mode_product k (transpose_nd Vh)) svds X2)"

text \<open>
  What "matching" means. The data tensor has one axis per factor matrix, as long
  as that matrix has rows. A reduced decomposition of an \<open>m \<times> r\<close> matrix has
  \<open>U\<close> of shape \<open>m \<times> k\<close>, \<open>s\<close> of length \<open>k\<close> and \<open>Vh\<close> of shape \<open>k \<times> r\<close>;
  \<open>reduced_svd\<close> says that \<open>svd\<close> returns such shapes for every factor matrix.
\<close>

definition svd_shapes_ok :: "ndarray \<Rightarrow> svd_result \<Rightarrow> bool" where
  "svd_shapes_ok f t =
     (case t of (U, s, Vh) \<Rightarrow>
        ndim s = 1 \<and> shape U = [shape f ! 0, shape s ! 0] \<and> shape Vh = [shape s ! 0, shape f ! 1])"

definition reduced_svd :: "svd_fun \<Rightarrow> ndarray list \<Rightarrow> bool" where
  "reduced_svd svd factors =
     list_all (\<lambda>f. case svd f of Inl e \<Rightarrow> False | Inr t \<Rightarrow> svd_shapes_ok f t) factors"

definition matching :: "ndarray list \<Rightarrow> ndarray \<Rightarrow> bool" where
  "matching factors X =
     (wf_array X \<and> list_all (\<lambda>f. ndim f = 2) factors \<and> map (\<lambda>f. shape f ! 0) factors = shape X)"

text \<open>
  The superdiagonal tensor of shape \<open>r\<^sup>n\<close>: one where all indices are equal, zero
  elsewhere. Column \<open>c\<close> of a matrix scaled by the weight \<open>c\<close>; absent weights leave
  the matrix as it is.
\<close>

definition superdiagonal :: "nat \<Rightarrow> nat \<Rightarrow> ndarray" where
  "superdiagonal r n = tabulate (replicate n r) (\<lambda>idx. if all_equal idx then 1 else 0)"

definition scale_columns :: "ndarray \<Rightarrow> ndarray \<Rightarrow> ndarray" where
  "scale_columns w f = tabulate (shape f) (\<lambda>idx. lookup f idx * lookup w [idx ! 1])"

definition weighted_first :: "ndarray option \<Rightarrow> ndarray \<Rightarrow> ndarray" where
  "weighted_first weights f = (case weights of None \<Rightarrow> f | Some w \<Rightarrow> scale_columns w f)"

definition sum_squares :: "ndarray \<Rightarrow> real" where
  "sum_squares g = (\<Sum>idx\<leftarrow>all_indices (shape g). (lookup g idx)\<^sup>2)"

definition sum_squared_difference :: "ndarray \<Rightarrow> ndarray \<Rightarrow> real" where
  "sum_squared_difference g i = (\<Sum>idx\<leftarrow>all_indices (shape g). (lookup g idx - lookup i idx)\<^sup>2)"

text \<open>The weights of a CP tensor of rank \<open>r\<close>: absent, or a vector of length \<open>r\<close>.\<close>

definition wf_weights :: "ndarray option \<Rightarrow> nat \<Rightarrow> bool" where
  "wf_weights weights r = (case weights of None \<Rightarrow> True | Some w \<Rightarrow> shape w = [r])"

section \<open>The module on a store of arrays\<close>

text \<open>
  numpy arrays are objects. A name refers to an array; \<open>a.copy()\<close> and every call
  that returns a result make a new one; \<open>*=\<close>, an assignment under a mask and
  \<open>np.fill_diagonal\<close> change one that exists, for every name that refers to it.
  To follow which arrays a call changes, the arrays live in a store, a reference is
  a position in the store, and the functions of the module take and return the
  store. An array is stored when the source binds it to a name; the intermediate
  values of an expression are not. \<open>U.T\<close> and \<open>weights.reshape(1, -1)\<close> are views:
  they read the array they are taken from.
\<close>

type_synonym ref = nat

type_synonym store = "ndarray list"

definition new_array :: "ndarray \<Rightarrow> store \<Rightarrow> ref \<times> store" where
  "new_array a st = (length st, st @ [a])"

definition write_array :: "ref \<Rightarrow> ndarray \<Rightarrow> store \<Rightarrow> store" where
  "write_array p a st = st[p := a]"

text \<open>
  A call that returns a new array or raises; an operation that changes the array at
  \<open>p\<close> or raises; sequencing.
\<close>

definition new_result :: "error + ndarray \<Rightarrow> store \<Rightarrow> (error + ref) \<times> store" where
  "new_result r st =
     (case r of
        Inl e \<Rightarrow> (Inl e, st)
      | Inr a \<Rightarrow> (case new_array a st of (p, st') \<Rightarrow> (Inr p, st')))"

definition update_result :: "ref \<Rightarrow> error + ndarray \<Rightarrow> store \<Rightarrow> (error + unit) \<times> store" where
  "update_result p r st =
     (case r of
        Inl e \<Rightarrow> (Inl e, st)
      | Inr a \<Rightarrow> (Inr (), write_array p a st))"

definition then_run :: "(error + 'a) \<times> store \<Rightarrow> ('a \<Rightarrow> store \<Rightarrow> (error + 'b) \<times> store)
    \<Rightarrow> (error + 'b) \<times> store" where
  "then_run m f = (case m of (Inl e, st) \<Rightarrow> (Inl e, st) | (Inr x, st) \<Rightarrow> f x st)"

subsection \<open>\<open>estimate_core_tensor\<close>\<close>

type_synonym svd_refs = "ref \<times> ref \<times> ref"

fun svd_all_st :: "svd_fun \<Rightarrow> ref list \<Rightarrow> store \<Rightarrow> (error + svd_refs list) \<times> store" where
  "svd_all_st svd [] st = (Inr [], st)"
| "svd_all_st svd (f # fs) st =
     (case svd (st ! f) of
        Inl e \<Rightarrow> (Inl e, st)
      | Inr (U, s, Vh) \<Rightarrow>
          (case new_array U st of (pU, st1) \<Rightarrow>
           case new_array s st1 of (ps, st2) \<Rightarrow>
           case new_array Vh st2 of (pVh, st3) \<Rightarrow>
           then_run (svd_all_st svd fs st3) (\<lambda>ts st'. (Inr ((pU, ps, pVh) # ts), st'))))"

fun for_each_st :: "(svd_refs \<Rightarrow> ref \<Rightarrow> store \<Rightarrow> (error + ref) \<times> store) \<Rightarrow> svd_refs list
    \<Rightarrow> ref \<Rightarrow> store \<Rightarrow> (error + ref) \<times> store" where
  "for_each_st body [] x st = (Inr x, st)"
| "for_each_st body (t # ts) x st = then_run (body t x st) (for_each_st body ts)"

definition contract_U_st :: "svd_refs \<Rightarrow> ref \<Rightarrow> store \<Rightarrow> (error + ref) \<times> store" where
  "contract_U_st t x st =
     (case t of (U, s, Vh) \<Rightarrow> new_result (tensordot_1_last (transpose_nd (st ! U)) (st ! x)) st)"

text \<open>
  \<open>s_pinv = s.copy()\<close> makes a new array; the assignment under the mask changes that
  copy.
\<close>

definition scale_s_st :: "svd_refs \<Rightarrow> ref \<Rightarrow> store \<Rightarrow> (error + ref) \<times> store" where
  "scale_s_st t x st =
     (case t of (U, s, Vh) \<Rightarrow>
      case new_array (st ! s) st of (sp, st1) \<Rightarrow>
      let st2 = write_array sp (s_pinv (st1 ! sp)) st1
      in new_result (and_then (np_diag (st2 ! sp)) (\<lambda>d. tensordot_1_last d (st2 ! x))) st2)"

definition contract_Vh_st :: "svd_refs \<Rightarrow> ref \<Rightarrow> store \<Rightarrow> (error + ref) \<times> store" where
  "contract_Vh_st t x st =
     (case t of (U, s, Vh) \<Rightarrow> new_result (tensordot_1_last (transpose_nd (st ! Vh)) (st ! x)) st)"

text \<open>
  \<open>np.ascontiguousarray(X)\<close> returns \<open>X\<close> itself when it has at least one axis (a
  copy with the same entries when its memory is not contiguous, which is not
  distinguished here) and a new array for a 0-d \<open>X\<close>.
\<close>

definition estimate_core_tensor_st :: "svd_fun \<Rightarrow> ref list \<Rightarrow> ref \<Rightarrow> store
    \<Rightarrow> (error + ref) \<times> store" where
  "estimate_core_tensor_st svd factors X st =
     then_run (svd_all_st svd factors st) (\<lambda>svds st1.
     then_run (for_each_st contract_U_st (rev svds) X st1) (\<lambda>X1 st2.
     then_run (for_each_st scale_s_st (rev svds) X1 st2) (\<lambda>X2 st3.
     then_run (for_each_st contract_Vh_st (rev svds) X2 st3) (\<lambda>X3 st4.
     if shape (st4 ! X3) = []
     then new_result (Inr (ascontiguousarray (st4 ! X3))) st4
     else (Inr X3, st4)))))"

subsection \<open>\<open>core_consistency\<close>\<close>

text \<open>
  The CP tensor is the pair of a reference to the weights, or \<open>None\<close>, and the
  references to the factor matrices. \<open>T\<close> is a new array of zeros that
  \<open>np.fill_diagonal\<close> then changes; \<open>G ** 2\<close>, \<open>G - T\<close> and its square are
  intermediate values.
\<close>

type_synonym cp_refs = "ref option \<times> ref list"

definition core_consistency_st :: "svd_fun \<Rightarrow> cp_refs \<Rightarrow> ref \<Rightarrow> bool \<Rightarrow> store
    \<Rightarrow> (error + npfloat) \<times> store" where
  "core_consistency_st svd cp_tensor X normalised st =
     (case cp_tensor of (weights, factors) \<Rightarrow>
      (case rank_of (map ((!) st) factors) of
        Inl e \<Rightarrow> (Inl e, st)
      | Inr rank \<Rightarrow>
          (case new_array (st ! hd factors) st of (A, st1) \<Rightarrow>
           then_run (case weights of
                       None \<Rightarrow> (Inr (), st1)
                     | Some w \<Rightarrow>
                         update_result A (np_imultiply (st1 ! A) (reshape_row (st1 ! w))) st1)
             (\<lambda>u st2.
           then_run (estimate_core_tensor_st svd (A # tl factors) X st2) (\<lambda>G st3.
           case new_array (np_zeros (replicate (ndim (st3 ! X)) rank)) st3 of (T, st4) \<Rightarrow>
           then_run (update_result T (fill_diagonal (st4 ! T) 1) st4) (\<lambda>u st5.
           let denom = (if normalised then np_sum (square (st5 ! G)) else real rank)
           in (and_then (np_subtract (st5 ! G) (st5 ! T)) (\<lambda>D.
                 Inr (rsub 100 (true_divide (100 * np_sum (square D)) denom))),
               st5)))))))"

text \<open>
  The arguments of a call refer to arrays of the store; \<open>cp_values\<close> reads the CP
  tensor they refer to.
\<close>

definition refs_in_store :: "store \<Rightarrow> cp_refs \<Rightarrow> ref \<Rightarrow> bool" where
  "refs_in_store st cp_tensor X =
     (case cp_tensor of (weights, factors) \<Rightarrow>
        (case weights of None \<Rightarrow> True | Some w \<Rightarrow> w < length st)
        \<and> list_all (\<lambda>f. f < length st) factors \<and> X < length st)"

definition cp_values :: "store \<Rightarrow> cp_refs \<Rightarrow> cp_tensor" where
  "cp_values st cp_tensor =
     (case cp_tensor of (weights, factors) \<Rightarrow> (map_option ((!) st) weights, map ((!) st) factors))"

section \<open>Example inputs\<close>

text \<open>
  Modelled from the spec: \<open>construct_cp_tensor\<close> of the module \<open>factor_tools\<close>, which
  is not among the sources at hand. The spec describes it as the dense tensor
  reconstructed from the factors and weights, the sum over the components of the
  weighted outer products of the factor columns. It is used for the concrete
  examples only.
\<close>

definition construct_cp_tensor :: construct_fun where
  "construct_cp_tensor cp_tensor =
     (case cp_tensor of (weights, factors) \<Rightarrow>
      and_then (rank_of factors) (\<lambda>rank.
        Inr (tabulate (map (\<lambda>f. hd (shape f)) factors)
              (\<lambda>idx. \<Sum>r\<leftarrow>[0..<rank].
                 (case weights of None \<Rightarrow> 1 | Some w \<Rightarrow> lookup w [r])
                 * prod_list (map2 (\<lambda>f i. lookup f [i, r]) factors idx)))))"

text \<open>
  A small classifier: \<open>fit\<close> remembers the first label, \<open>predict\<close> gives that label
  to every row, \<open>score\<close> is the share of rows whose label is the remembered one.
  \<open>mismatches\<close> is a metric function.
\<close>

definition first_label_fit :: "nat option \<Rightarrow> ndarray \<Rightarrow> nat list \<Rightarrow> string + nat option" where
  "first_label_fit c x y = (case y of [] \<Rightarrow> Inl ''no samples'' | l # _ \<Rightarrow> Inr (Some l))"

definition first_label_predict :: "nat option \<Rightarrow> ndarray \<Rightarrow> string + nat list" where
  "first_label_predict c x =
     (case c of None \<Rightarrow> Inl ''not fitted'' | Some l \<Rightarrow> Inr (replicate (hd (shape x)) l))"

definition first_label_score :: "nat option \<Rightarrow> ndarray \<Rightarrow> nat list \<Rightarrow> string + real" where
  "first_label_score c x y =
     (case c of
        None \<Rightarrow> Inl ''not fitted''
      | Some l \<Rightarrow> Inr (real (length (filter (\<lambda>k. k = l) y)) / real (length y)))"

definition first_label :: "(nat option, ndarray, nat list, real, string) classifier" where
  "first_label = \<lparr>clf_fit = first_label_fit, clf_score = first_label_score,
                  clf_predict = first_label_predict\<rparr>"

definition mismatches :: "nat list \<Rightarrow> nat list \<Rightarrow> string + real" where
  "mismatches y_true y_pred = Inr (real (length (filter (\<lambda>(a, b). a \<noteq> b) (zip y_true y_pred))))"

text \<open>
  Reduced singular value decompositions of the matrices used in the examples, in
  place of the library routine: every \<open>1 \<times> 1\<close> matrix, the column \<open>(3, 4)\<close>, the
  \<open>2 \<times> 2\<close> identity and the diagonal matrix with the entries 2 and 1. In each case
  \<open>U\<close> times the diagonal matrix of \<open>s\<close> times \<open>Vh\<close> is the matrix, the columns of
  \<open>U\<close> and the rows of \<open>Vh\<close> are orthonormal, and \<open>s\<close> is non-negative and
  descending.
\<close>

definition svd_example :: svd_fun where
  "svd_example a =
     (if shape a = [1, 1]
      then Inr (NDArray [1, 1] [if hd (data a) < 0 then - 1 else 1],
                NDArray [1] [abs (hd (data a))],
                NDArray [1, 1] [1])
      else if a = NDArray [2, 1] [3, 4]
      then Inr (NDArray [2, 1] [3 / 5, 4 / 5], NDArray [1] [5], NDArray [1, 1] [1])
      else if a = NDArray [2, 2] [1, 0, 0, 1]
      then Inr (NDArray [2, 2] [1, 0, 0, 1], NDArray [2] [1, 1], NDArray [2, 2] [1, 0, 0, 1])
      else if a = NDArray [2, 2] [2, 0, 0, 1]
      then Inr (NDArray [2, 2] [1, 0, 0, 1], NDArray [2] [2, 1], NDArray [2, 2] [1, 0, 0, 1])
      else Inl (ValueError ''no decomposition tabulated for this matrix''))"

section \<open>Auxiliary notions for the proofs\<close>

text \<open>
  \<open>rotated t x y\<close>: \<open>x\<close> is \<open>y\<close> with its last \<open>t\<close> axes moved to the front. This is
  the state of \<open>X\<close> after \<open>t\<close> rounds of one of the loops of
  \<open>estimate_core_tensor\<close>, when \<open>y\<close> is the tensor with the same \<open>t\<close> modes
  contracted in place. \<open>inplace_loop\<close> contracts in place, last mode first.
\<close>

definition rotated :: "nat \<Rightarrow> ndarray \<Rightarrow> ndarray \<Rightarrow> bool" where
  "rotated t x y =
     (t \<le> ndim y
      \<and> shape x = drop (ndim y - t) (shape y) @ take (ndim y - t) (shape y)
      \<and> (\<forall>idx. valid_index (shape x) idx \<longrightarrow> lookup x idx = lookup y (drop t idx @ take t idx)))"

fun inplace_loop :: "(svd_result \<Rightarrow> ndarray) \<Rightarrow> svd_result list \<Rightarrow> nat \<Rightarrow> ndarray \<Rightarrow> ndarray" where
  "inplace_loop g [] t y = y"
| "inplace_loop g (s # ss) t y = inplace_loop g ss (Suc t) (mode_product (ndim y - 1 - t) (g s) y)"

text \<open>
  \<open>extends st st'\<close>: every array of the store \<open>st\<close> is in \<open>st'\<close>, at the same place and
  with the same content. \<open>agrees st r v\<close>: the run on the store from \<open>st\<close> and the
  function on values end alike, with the same exception or with a reference to the
  array that the function on values returns.
\<close>

definition extends :: "store \<Rightarrow> store \<Rightarrow> bool" where
  "extends st st' = (take (length st) st' = st)"

definition agrees :: "store \<Rightarrow> (error + ref) \<times> store \<Rightarrow> error + ndarray \<Rightarrow> bool" where
  "agrees st r v =
     (extends st (snd r)
      \<and> (case fst r of
            Inl e \<Rightarrow> v = Inl e
          | Inr p \<Rightarrow> p < length (snd r) \<and> v = Inr (snd r ! p)))"

definition deref :: "store \<Rightarrow> svd_refs \<Rightarrow> svd_result" where
  "deref st t = (case t of (U, s, Vh) \<Rightarrow> (st ! U, st ! s, st ! Vh))"

definition valid_refs :: "store \<Rightarrow> svd_refs \<Rightarrow> bool" where
  "valid_refs st t = (case t of (U, s, Vh) \<Rightarrow> U < length st \<and> s < length st \<and> Vh < length st)"

section \<open>Properties\<close>

subsection \<open>Basic facts\<close>

lemma and_then_Inl [simp]: "and_then (Inl e) f = Inl e"
  by (simp add: and_then_def)

lemma and_then_Inr [simp]: "and_then (Inr x) f = f x"
  by (simp add: and_then_def)

lemma and_then_eq_Inr:
  "and_then m f = Inr y \<longleftrightarrow> (\<exists>x. m = Inr x \<and> f x = Inr y)"
  by (cases m) simp_all

subsection \<open>Indices, \<open>lookup\<close> and \<open>tabulate\<close>\<close>

lemma set_all_indices: "set (all_indices sh) = {idx. valid_index sh idx}"
  unfolding all_indices_def valid_index_def product_lists_set
  by (auto simp: list_all2_conv_all_nth)

lemma length_all_indices: "length (all_indices sh) = prod_list sh"
  unfolding all_indices_def
  by (induction sh) (auto simp: length_concat comp_def sum_list_triv)

lemma concat_blocks: "concat (map (\<lambda>i. map (\<lambda>k. i * p + k) [0..<p]) [0..<d]) = [0..<d * p]"
proof (induction d)
  case 0
  then show ?case by simp
next
  case (Suc d)
  have "map (\<lambda>k. d * p + k) [0..<p] = [d * p..<d * p + p]"
    by (simp add: map_add_upt add.commute)
  moreover have "[0..<d * p + p] = [0..<d * p] @ [d * p..<d * p + p]"
    by (rule upt_add_eq_append) simp
  ultimately show ?case using Suc by (simp add: add.commute)
qed

lemma map_flat_index: "map (flat_index sh) (all_indices sh) = [0..<prod_list sh]"
proof (induction sh)
  case Nil
  then show ?case by (simp add: all_indices_def)
next
  case (Cons d ds)
  have "map (flat_index (d # ds)) (all_indices (d # ds))
      = concat (map (\<lambda>i. map (\<lambda>k. i * prod_list ds + k) (map (flat_index ds) (all_indices ds))) [0..<d])"
    by (simp add: all_indices_def map_concat comp_def)
  also have "\<dots> = [0..<d * prod_list ds]"
    unfolding Cons.IH by (rule concat_blocks)
  finally show ?case by simp
qed

lemma flat_index_nth: "k < prod_list sh \<Longrightarrow> flat_index sh (all_indices sh ! k) = k"
  using arg_cong[OF map_flat_index, of "\<lambda>xs. xs ! k" sh]
  by (simp add: length_all_indices)

lemma flat_index_valid:
  assumes "valid_index sh idx"
  shows "flat_index sh idx < prod_list sh" and "all_indices sh ! flat_index sh idx = idx"
proof -
  from assms have "idx \<in> set (all_indices sh)" by (simp add: set_all_indices)
  then obtain k where k: "k < prod_list sh" "all_indices sh ! k = idx"
    by (auto simp: in_set_conv_nth length_all_indices)
  then have "flat_index sh idx = k" using flat_index_nth by blast
  with k show "flat_index sh idx < prod_list sh" and "all_indices sh ! flat_index sh idx = idx"
    by simp_all
qed

lemma lookup_tabulate: "valid_index sh idx \<Longrightarrow> lookup (tabulate sh f) idx = f idx"
  by (simp add: lookup_def tabulate_def flat_index_valid length_all_indices)

lemma tabulate_cong:
  "(\<And>idx. valid_index sh idx \<Longrightarrow> f idx = g idx) \<Longrightarrow> tabulate sh f = tabulate sh g"
  by (simp add: tabulate_def set_all_indices)

lemma tabulate_lookup: "wf_array a \<Longrightarrow> tabulate (shape a) (lookup a) = a"
proof -
  assume wf: "wf_array a"
  have "map (lookup a) (all_indices (shape a)) = map ((!) (data a)) (map (flat_index (shape a)) (all_indices (shape a)))"
    by (simp add: lookup_def comp_def)
  also have "\<dots> = data a"
    using wf unfolding map_flat_index wf_array_def size_of_def by (metis map_nth)
  finally show ?thesis by (cases a) (simp add: tabulate_def)
qed

lemma shape_tabulate [simp]: "shape (tabulate sh f) = sh"
  by (simp add: tabulate_def)

lemma ndim_tabulate [simp]: "ndim (tabulate sh f) = length sh"
  by (simp add: ndim_def)

lemma wf_tabulate [simp]: "wf_array (tabulate sh f)"
  by (simp add: tabulate_def wf_array_def size_of_def length_all_indices)

lemma array_eqI:
  assumes "wf_array a" "wf_array b" "shape a = shape b"
    and "\<And>idx. valid_index (shape a) idx \<Longrightarrow> lookup a idx = lookup b idx"
  shows "a = b"
proof -
  have "tabulate (shape a) (lookup a) = tabulate (shape a) (lookup b)"
    by (rule tabulate_cong) (rule assms(4))
  with assms(1-3) show ?thesis by (metis tabulate_lookup)
qed

lemma valid_index_length: "valid_index sh idx \<Longrightarrow> length idx = length sh"
  by (simp add: valid_index_def list_all2_lengthD)

lemma valid_index_nth: "valid_index sh idx \<Longrightarrow> k < length sh \<Longrightarrow> idx ! k < sh ! k"
  by (simp add: valid_index_def list_all2_conv_all_nth)

lemma valid_index_Cons [simp]: "valid_index (d # sh) (i # idx) \<longleftrightarrow> i < d \<and> valid_index sh idx"
  by (simp add: valid_index_def)

lemma valid_index_Nil [simp]: "valid_index [] idx \<longleftrightarrow> idx = []"
  by (simp add: valid_index_def)

lemma valid_index_append:
  "length idx1 = length sh1 \<Longrightarrow>
   valid_index (sh1 @ sh2) (idx1 @ idx2) \<longleftrightarrow> valid_index sh1 idx1 \<and> valid_index sh2 idx2"
  by (auto simp: valid_index_def list_all2_append)

lemma valid_index_take: "valid_index sh idx \<Longrightarrow> valid_index (take n sh) (take n idx)"
  by (simp add: valid_index_def)

lemma valid_index_drop: "valid_index sh idx \<Longrightarrow> valid_index (drop n sh) (drop n idx)"
  by (simp add: valid_index_def)

lemma valid_index_update:
  "valid_index sh idx \<Longrightarrow> j < d \<Longrightarrow> valid_index (sh[k := d]) (idx[k := j])"
  by (simp add: valid_index_def list_all2_update_cong)

lemma valid_index_update_same:
  "valid_index sh idx \<Longrightarrow> k < length sh \<Longrightarrow> j < sh ! k \<Longrightarrow> valid_index sh (idx[k := j])"
  using valid_index_update[of sh idx j "sh ! k" k] by simp


subsection \<open>One round of a loop of \<open>estimate_core_tensor\<close>\<close>

lemma tensordot_matrix:
  assumes "ndim m = 2" "1 \<le> ndim x" "shape m ! 1 = last (shape x)"
  shows "tensordot_1_last m x =
     Inr (tabulate (hd (shape m) # butlast (shape x))
           (\<lambda>idx. \<Sum>j\<leftarrow>[0..<last (shape x)]. lookup m [hd idx, j] * lookup x (tl idx @ [j])))"
proof -
  from assms(1) have d2: "drop 2 (shape m) = []" by (simp add: ndim_def)
  have "tabulate (hd (shape m) # butlast (shape x))
           (\<lambda>idx. \<Sum>j\<leftarrow>[0..<last (shape x)].
               lookup m (hd idx # j # tl (take 1 idx)) * lookup x (drop 1 idx @ [j]))
      = tabulate (hd (shape m) # butlast (shape x))
           (\<lambda>idx. \<Sum>j\<leftarrow>[0..<last (shape x)]. lookup m [hd idx, j] * lookup x (tl idx @ [j]))"
  proof (rule tabulate_cong)
    fix idx assume "valid_index (hd (shape m) # butlast (shape x)) idx"
    then have "idx \<noteq> []" by (auto dest: valid_index_length)
    then obtain i rest where "idx = i # rest" by (cases idx) auto
    then show "(\<Sum>j\<leftarrow>[0..<last (shape x)].
               lookup m (hd idx # j # tl (take 1 idx)) * lookup x (drop 1 idx @ [j]))
       = (\<Sum>j\<leftarrow>[0..<last (shape x)]. lookup m [hd idx, j] * lookup x (tl idx @ [j]))"
      by simp
  qed
  with assms d2 show ?thesis
    by (simp add: tensordot_1_last_def Let_def)
qed

lemma shape_mode_product [simp]: "shape (mode_product k m x) = (shape x)[k := hd (shape m)]"
  by (simp add: mode_product_def)

lemma ndim_mode_product [simp]: "ndim (mode_product k m x) = ndim x"
  by (simp add: ndim_def)

lemma lookup_mode_product:
  "valid_index ((shape x)[k := hd (shape m)]) idx \<Longrightarrow>
   lookup (mode_product k m x) idx
     = (\<Sum>j\<leftarrow>[0..<shape x ! k]. lookup m [idx ! k, j] * lookup x (idx[k := j]))"
  by (simp add: mode_product_def lookup_tabulate)

lemma rotated_step:
  assumes rot: "rotated t x y" and t: "t < ndim y"
    and m: "ndim m = 2" "shape m ! 1 = shape y ! (ndim y - 1 - t)"
  shows "\<exists>x'. tensordot_1_last m x = Inr x'
             \<and> rotated (Suc t) x' (mode_product (ndim y - 1 - t) m y)"
proof -
  define n where "n = ndim y"
  define k where "k = n - 1 - t"
  define sh where "sh = shape y"
  define r where "r = hd (shape m)"
  have len: "length sh = n" by (simp add: sh_def n_def ndim_def)
  have kn: "k < n" and k1: "Suc k = n - t" and kt: "k + t = n - 1" using t by (simp_all add: k_def n_def)
  from rot have shx: "shape x = drop (Suc k) sh @ take (Suc k) sh"
    and lk: "\<And>idx. valid_index (shape x) idx \<Longrightarrow> lookup x idx = lookup y (drop t idx @ take t idx)"
    by (simp_all add: rotated_def k1 n_def sh_def)
  have tk: "take (Suc k) sh = take k sh @ [sh ! k]"
    using kn len by (simp add: take_Suc_conv_app_nth)
  have lastx: "last (shape x) = sh ! k" and butx: "butlast (shape x) = drop (Suc k) sh @ take k sh"
    by (simp_all add: shx tk butlast_append)
  have ndx: "1 \<le> ndim x" using kn len by (simp add: ndim_def shx)
  define x' where "x' = tabulate (r # butlast (shape x))
           (\<lambda>idx. \<Sum>j\<leftarrow>[0..<last (shape x)]. lookup m [hd idx, j] * lookup x (tl idx @ [j]))"
  have td: "tensordot_1_last m x = Inr x'"
    unfolding x'_def r_def
    by (rule tensordot_matrix) (use m ndx lastx in \<open>simp_all add: sh_def k_def n_def\<close>)
  define y' where "y' = mode_product k m y"
  have shy': "shape y' = sh[k := r]" by (simp add: y'_def sh_def r_def)
  have "rotated (Suc t) x' y'"
    unfolding rotated_def
  proof (intro conjI allI impI)
    show "Suc t \<le> ndim y'" using t by (simp add: y'_def)
    have "ndim y' - Suc t = k" by (simp add: y'_def k_def n_def)
    moreover have "drop k (sh[k := r]) = r # drop (Suc k) sh"
      using kn len by (simp add: upd_conv_take_nth_drop)
    ultimately show "shape x' = drop (ndim y' - Suc t) (shape y') @ take (ndim y' - Suc t) (shape y')"
      by (simp add: x'_def butx shy')
  next
    fix idx assume v: "valid_index (shape x') idx"
    then have v': "valid_index (r # drop (Suc k) sh @ take k sh) idx"
      by (simp add: x'_def butx)
    then obtain i rest where idx: "idx = i # rest" by (cases idx) (auto dest: valid_index_length)
    with v' have i: "i < r" and vrest: "valid_index (drop (Suc k) sh @ take k sh) rest" by simp_all
    have lrest: "length rest = n - 1" using valid_index_length[OF vrest] kn len by simp
    have tl: "t \<le> length rest" using lrest t by (simp add: n_def)
    have ldrop: "length (drop t rest) = k" using lrest by (simp add: k_def)
    define idx' where "idx' = drop (Suc t) idx @ take (Suc t) idx"
    have idx'_eq: "idx' = drop t rest @ i # take t rest" by (simp add: idx'_def idx)
    have idx'k: "idx' ! k = i"
      unfolding idx'_eq ldrop[symmetric] by (rule nth_append_length)
    have idx'upd: "\<And>j. idx'[k := j] = drop t rest @ j # take t rest"
      unfolding idx'_eq ldrop[symmetric] by (rule list_update_length)
    have vd: "valid_index (drop (Suc k) sh) (take t rest)" and vt: "valid_index (take k sh) (drop t rest)"
    proof -
      have l1: "length (take t rest) = length (drop (Suc k) sh)"
        using tl len k1 by simp
      have "rest = take t rest @ drop t rest" by simp
      with vrest have "valid_index (drop (Suc k) sh @ take k sh) (take t rest @ drop t rest)" by simp
      then show "valid_index (drop (Suc k) sh) (take t rest)" "valid_index (take k sh) (drop t rest)"
        using valid_index_append[OF l1] by blast+
    qed
    have vx: "\<And>j. j < sh ! k \<Longrightarrow> valid_index (shape x) (rest @ [j])"
    proof -
      fix j assume j: "j < sh ! k"
      have "valid_index ((drop (Suc k) sh @ take k sh) @ [sh ! k]) (rest @ [j])"
        using vrest j valid_index_length[OF vrest]
        by (subst valid_index_append) simp_all
      then show "valid_index (shape x) (rest @ [j])" by (simp add: shx tk)
    qed
    have vy': "valid_index (sh[k := r]) idx'"
    proof -
      have "sh[k := r] = take k sh @ r # drop (Suc k) sh"
        using kn len by (simp add: upd_conv_take_nth_drop)
      moreover have "valid_index (take k sh @ r # drop (Suc k) sh) (drop t rest @ i # take t rest)"
        using vt vd i valid_index_length[OF vt]
        by (subst valid_index_append) simp_all
      ultimately show ?thesis by (simp add: idx'_eq)
    qed
    have "lookup x' idx = (\<Sum>j\<leftarrow>[0..<sh ! k]. lookup m [i, j] * lookup x (rest @ [j]))"
      using v by (simp add: x'_def lookup_tabulate lastx idx)
    also have "\<dots> = (\<Sum>j\<leftarrow>[0..<sh ! k]. lookup m [i, j] * lookup y (drop t rest @ j # take t rest))"
    proof (rule arg_cong[where f = sum_list], rule map_cong[OF refl])
      fix j assume "j \<in> set [0..<sh ! k]"
      then have j: "j < sh ! k" by simp
      have "lookup x (rest @ [j]) = lookup y (drop t (rest @ [j]) @ take t (rest @ [j]))"
        by (rule lk[OF vx[OF j]])
      also have "drop t (rest @ [j]) @ take t (rest @ [j]) = drop t rest @ j # take t rest"
        using tl by simp
      finally show "lookup m [i, j] * lookup x (rest @ [j])
         = lookup m [i, j] * lookup y (drop t rest @ j # take t rest)"
        by simp
    qed
    also have "\<dots> = lookup y' idx'"
      using vy' by (simp add: y'_def lookup_mode_product idx'k idx'upd sh_def r_def)
    finally show "lookup x' idx = lookup y' (drop (Suc t) idx @ take (Suc t) idx)"
      by (simp add: idx'_def)
  qed
  with td show ?thesis by (auto simp: y'_def k_def n_def)
qed

subsection \<open>A whole loop\<close>

lemma rotated_start: "rotated 0 x x"
  by (simp add: rotated_def ndim_def)

lemma rotated_end:
  assumes "rotated (ndim y) x y" "wf_array x" "wf_array y"
  shows "x = y"
proof (rule array_eqI)
  from assms(1) show sh: "shape x = shape y" by (simp add: rotated_def ndim_def)
  fix idx assume v: "valid_index (shape x) idx"
  then have "length idx = ndim y" using sh by (simp add: valid_index_length ndim_def)
  with assms(1) v show "lookup x idx = lookup y idx" by (simp add: rotated_def)
qed (use assms in simp_all)

lemma wf_mode_product [simp]: "wf_array (mode_product k m x)"
  by (simp add: mode_product_def)

lemma wf_inplace_loop: "wf_array y \<Longrightarrow> wf_array (inplace_loop g ss t y)"
  by (induction ss arbitrary: t y) simp_all

lemma ndim_inplace_loop [simp]: "ndim (inplace_loop g ss t y) = ndim y"
  by (induction ss arbitrary: t y) simp_all

lemma wf_tensordot: "tensordot_1_last m x = Inr x' \<Longrightarrow> wf_array x'"
  by (auto simp: tensordot_1_last_def Let_def split: if_splits)

lemma wf_for_each:
  assumes "\<And>s x x'. body s x = Inr x' \<Longrightarrow> wf_array x'"
  shows "wf_array x \<Longrightarrow> for_each body ss x = Inr x' \<Longrightarrow> wf_array x'"
proof (induction ss arbitrary: x)
  case Nil
  then show ?case by simp
next
  case (Cons s ss)
  from Cons.prems(2) obtain x1 where "body s x = Inr x1" "for_each body ss x1 = Inr x'"
    by (auto simp: and_then_eq_Inr)
  with assms Cons.IH show ?case by blast
qed

lemma rotated_loop:
  assumes "rotated t x y" "t + length ss = ndim y"
    and "\<And>i. i < length ss \<Longrightarrow>
           mk (ss ! i) = Inr (g (ss ! i)) \<and> ndim (g (ss ! i)) = 2
           \<and> shape (g (ss ! i)) ! 1 = shape y ! (ndim y - 1 - t - i)"
  shows "\<exists>x'. for_each (\<lambda>s x. and_then (mk s) (\<lambda>m. tensordot_1_last m x)) ss x = Inr x'
            \<and> rotated (ndim y) x' (inplace_loop g ss t y)"
  using assms
proof (induction ss arbitrary: t x y)
  case Nil
  then show ?case by simp
next
  case (Cons s ss)
  define k where "k = ndim y - 1 - t"
  define y' where "y' = mode_product k (g s) y"
  from Cons.prems(2) have t: "t < ndim y" by simp
  from Cons.prems(3)[of 0] have s: "mk s = Inr (g s)" "ndim (g s) = 2" "shape (g s) ! 1 = shape y ! k"
    by (simp_all add: k_def)
  from rotated_step[OF Cons.prems(1) t s(2)] s(3)
  obtain x1 where x1: "tensordot_1_last (g s) x = Inr x1" "rotated (Suc t) x1 y'"
    by (auto simp: k_def y'_def)
  have len: "Suc t + length ss = ndim y'" using Cons.prems(2) by (simp add: y'_def)
  have rest: "mk (ss ! i) = Inr (g (ss ! i)) \<and> ndim (g (ss ! i)) = 2
           \<and> shape (g (ss ! i)) ! 1 = shape y' ! (ndim y' - 1 - Suc t - i)" if "i < length ss" for i
  proof -
    from Cons.prems(3)[of "Suc i"] that
    have a: "mk (ss ! i) = Inr (g (ss ! i))" "ndim (g (ss ! i)) = 2"
      "shape (g (ss ! i)) ! 1 = shape y ! (ndim y - 1 - t - Suc i)" by simp_all
    have "ndim y - 1 - t - Suc i \<noteq> k" using that Cons.prems(2) by (simp add: k_def)
    then have "shape y' ! (ndim y - 1 - t - Suc i) = shape y ! (ndim y - 1 - t - Suc i)"
      by (simp add: y'_def)
    with a show ?thesis by (simp add: y'_def)
  qed
  from Cons.IH[OF x1(2) len rest]
  obtain x' where "for_each (\<lambda>s x. and_then (mk s) (\<lambda>m. tensordot_1_last m x)) ss x1 = Inr x'"
    "rotated (ndim y') x' (inplace_loop g ss (Suc t) y')" by blast
  with s(1) x1(1) show ?case by (simp add: y'_def k_def)
qed

lemma inplace_loop_fold:
  "t + length ss = ndim y \<Longrightarrow>
   inplace_loop g ss t y
     = fold (\<lambda>(k, s). mode_product k (g s)) (zip (rev [0..<ndim y - t]) ss) y"
proof (induction ss arbitrary: t y)
  case Nil
  then show ?case by simp
next
  case (Cons s ss)
  then have "ndim y - t = Suc (ndim y - 1 - t)" by simp
  then have "rev [0..<ndim y - t] = (ndim y - 1 - t) # rev [0..<ndim y - 1 - t]"
    by simp
  moreover have "ndim y - 1 - t = ndim y - Suc t" by simp
  ultimately show ?case using Cons.IH[of "Suc t" "mode_product (ndim y - 1 - t) (g s) y"] Cons.prems
    by simp
qed

lemma inplace_loop_rev:
  assumes "length svds = ndim y"
  shows "inplace_loop g (rev svds) 0 y
       = fold (\<lambda>k. mode_product k (g (svds ! k))) (rev [0..<length svds]) y"
proof -
  have z: "zip [0..<length svds] svds = map (\<lambda>k. (k, svds ! k)) [0..<length svds]"
    by (rule nth_equalityI) simp_all
  have "inplace_loop g (rev svds) 0 y
      = fold (\<lambda>(k, s). mode_product k (g s)) (zip (rev [0..<length svds]) (rev svds)) y"
    using inplace_loop_fold[of 0 "rev svds" y g] assms by simp
  also have "zip (rev [0..<length svds]) (rev svds) = rev (zip [0..<length svds] svds)"
    by (simp add: zip_rev)
  also have "\<dots> = map (\<lambda>k. (k, svds ! k)) (rev [0..<length svds])"
    by (simp add: z rev_map)
  finally show ?thesis by (simp add: fold_map comp_def)
qed

subsection \<open>The order of the modes\<close>

lemma sum_list_upt: "(\<Sum>j\<leftarrow>[0..<n]. f j) = (\<Sum>j<n. f j)"
  by (simp add: interv_sum_list_conv_sum_set_nat lessThan_atLeast0)

lemma mode_product_commute:
  assumes "k \<noteq> l" "k < ndim x" "l < ndim x"
  shows "mode_product k a (mode_product l b x) = mode_product l b (mode_product k a x)"
proof -
  define sh where "sh = shape x"
  define ra where "ra = hd (shape a)"
  define rb where "rb = hd (shape b)"
  have len: "k < length sh" "l < length sh" using assms by (simp_all add: sh_def ndim_def)
  have swap: "sh[l := rb, k := ra] = sh[k := ra, l := rb]"
    using assms(1) by (simp add: list_update_swap)
  have "tabulate (sh[l := rb, k := ra])
          (\<lambda>idx. \<Sum>j\<leftarrow>[0..<sh[l := rb] ! k]. lookup a [idx ! k, j]
                     * lookup (mode_product l b x) (idx[k := j]))
      = tabulate (sh[l := rb, k := ra])
          (\<lambda>idx. \<Sum>j'\<leftarrow>[0..<sh[k := ra] ! l]. lookup b [idx ! l, j']
                     * lookup (mode_product k a x) (idx[l := j']))"
  proof (rule tabulate_cong)
    fix idx assume v: "valid_index (sh[l := rb, k := ra]) idx"
    have dk: "sh[l := rb] ! k = sh ! k" and dl: "sh[k := ra] ! l = sh ! l"
      using assms(1) by simp_all
    have v1: "valid_index (sh[l := rb]) (idx[k := j])" if "j < sh ! k" for j
    proof -
      have "valid_index ((sh[l := rb, k := ra])[k := sh ! k]) (idx[k := j])"
        using v that by (rule valid_index_update)
      moreover have "(sh[l := rb, k := ra])[k := sh ! k] = sh[l := rb]"
        using assms(1) by (simp add: list_update_swap[of l k])
      ultimately show ?thesis by simp
    qed
    have v2: "valid_index (sh[k := ra]) (idx[l := j'])" if "j' < sh ! l" for j'
    proof -
      have "valid_index ((sh[k := ra, l := rb])[l := sh ! l]) (idx[l := j'])"
        using v that unfolding swap by (rule valid_index_update)
      moreover have "(sh[k := ra, l := rb])[l := sh ! l] = sh[k := ra]"
        using assms(1) by (simp add: list_update_swap[of k l])
      ultimately show ?thesis by simp
    qed
    have inner1: "lookup (mode_product l b x) (idx[k := j])
        = (\<Sum>j'<sh ! l. lookup b [idx ! l, j'] * lookup x (idx[k := j, l := j']))" if "j < sh ! k" for j
      using v1[OF that] assms(1)
      by (simp add: lookup_mode_product sh_def[symmetric] rb_def[symmetric] sum_list_upt)
    have inner2: "lookup (mode_product k a x) (idx[l := j'])
        = (\<Sum>j<sh ! k. lookup a [idx ! k, j] * lookup x (idx[l := j', k := j]))" if "j' < sh ! l" for j'
      using v2[OF that] assms(1)
      by (simp add: lookup_mode_product sh_def[symmetric] ra_def[symmetric] sum_list_upt)
    have "(\<Sum>j<sh ! k. lookup a [idx ! k, j] * lookup (mode_product l b x) (idx[k := j]))
        = (\<Sum>j<sh ! k. \<Sum>j'<sh ! l. lookup a [idx ! k, j] * (lookup b [idx ! l, j'] * lookup x (idx[k := j, l := j'])))"
      by (rule sum.cong) (simp_all add: inner1 sum_distrib_left)
    also have "\<dots> = (\<Sum>j'<sh ! l. \<Sum>j<sh ! k. lookup a [idx ! k, j] * (lookup b [idx ! l, j'] * lookup x (idx[k := j, l := j'])))"
      by (rule sum.swap)
    also have "\<dots> = (\<Sum>j'<sh ! l. lookup b [idx ! l, j'] * lookup (mode_product k a x) (idx[l := j']))"
    proof (rule sum.cong)
      fix j' assume "j' \<in> {..<sh ! l}"
      then have j': "j' < sh ! l" by simp
      have "\<And>j. idx[k := j, l := j'] = idx[l := j', k := j]"
        using assms(1) by (simp add: list_update_swap)
      then show "(\<Sum>j<sh ! k. lookup a [idx ! k, j] * (lookup b [idx ! l, j'] * lookup x (idx[k := j, l := j'])))
          = lookup b [idx ! l, j'] * lookup (mode_product k a x) (idx[l := j'])"
        by (simp add: inner2[OF j'] sum_distrib_left mult.left_commute)
    qed simp
    finally show "(\<Sum>j\<leftarrow>[0..<sh[l := rb] ! k]. lookup a [idx ! k, j]
                     * lookup (mode_product l b x) (idx[k := j]))
       = (\<Sum>j'\<leftarrow>[0..<sh[k := ra] ! l]. lookup b [idx ! l, j']
                     * lookup (mode_product k a x) (idx[l := j']))"
      by (simp add: sum_list_upt dk dl)
  qed
  then show ?thesis
    unfolding mode_product_def[of k a "mode_product l b x"] mode_product_def[of l b "mode_product k a x"]
    by (simp add: sh_def ra_def rb_def swap[unfolded sh_def ra_def rb_def])
qed

lemma fold_commute_one:
  assumes comm: "\<And>k l x. k \<noteq> l \<Longrightarrow> k < n \<Longrightarrow> l < n \<Longrightarrow> ndim x = n \<Longrightarrow> F k (F l x) = F l (F k x)"
    and pres: "\<And>k x. ndim (F k x) = ndim x"
  shows "k \<notin> set ks \<Longrightarrow> k < n \<Longrightarrow> \<forall>l\<in>set ks. l < n \<Longrightarrow> ndim x = n \<Longrightarrow>
         fold F ks (F k x) = F k (fold F ks x)"
proof (induction ks arbitrary: x)
  case Nil
  then show ?case by simp
next
  case (Cons l ks)
  have "F l (F k x) = F k (F l x)"
    using Cons.prems by (intro comm) auto
  moreover have "fold F ks (F k (F l x)) = F k (fold F ks (F l x))"
    using Cons.prems by (intro Cons.IH) (auto simp: pres)
  ultimately show ?case by simp
qed

lemma fold_rev_modes:
  assumes comm: "\<And>k l x. k \<noteq> l \<Longrightarrow> k < n \<Longrightarrow> l < n \<Longrightarrow> ndim x = n \<Longrightarrow> F k (F l x) = F l (F k x)"
    and pres: "\<And>k x. ndim (F k x) = ndim x"
  shows "distinct ks \<Longrightarrow> \<forall>l\<in>set ks. l < n \<Longrightarrow> ndim x = n \<Longrightarrow> fold F (rev ks) x = fold F ks x"
proof (induction ks arbitrary: x)
  case Nil
  then show ?case by simp
next
  case (Cons k ks)
  have "fold F (rev (k # ks)) x = F k (fold F (rev ks) x)" by simp
  also have "\<dots> = F k (fold F ks x)" using Cons by simp
  also have "\<dots> = fold F ks (F k x)"
    using Cons.prems by (intro fold_commute_one[OF comm pres, symmetric]) auto
  finally show ?case by simp
qed

lemma loop_is_mode_products:
  assumes n: "ndim y = length svds" and wf: "wf_array y"
    and mk: "\<And>k. k < length svds \<Longrightarrow>
           mk (svds ! k) = Inr (g (svds ! k)) \<and> ndim (g (svds ! k)) = 2
           \<and> shape (g (svds ! k)) ! 1 = shape y ! k"
  shows "for_each (\<lambda>s x. and_then (mk s) (\<lambda>m. tensordot_1_last m x)) (rev svds) y
       = Inr (fold (\<lambda>k. mode_product k (g (svds ! k))) [0..<length svds] y)"
proof -
  let ?body = "\<lambda>s x. and_then (mk s) (\<lambda>m. tensordot_1_last m x)"
  have cond: "mk (rev svds ! i) = Inr (g (rev svds ! i)) \<and> ndim (g (rev svds ! i)) = 2
           \<and> shape (g (rev svds ! i)) ! 1 = shape y ! (ndim y - 1 - 0 - i)"
    if "i < length (rev svds)" for i
  proof -
    from that have "rev svds ! i = svds ! (length svds - 1 - i)" by (simp add: rev_nth)
    moreover have "length svds - 1 - i < length svds" using that by simp
    ultimately show ?thesis using mk[of "length svds - 1 - i"] n by simp
  qed
  have "\<exists>x'. for_each ?body (rev svds) y = Inr x'
            \<and> rotated (ndim y) x' (inplace_loop g (rev svds) 0 y)"
    by (rule rotated_loop[OF rotated_start]) (use n cond in simp_all)
  then obtain x' where x': "for_each ?body (rev svds) y = Inr x'"
    "rotated (ndim y) x' (inplace_loop g (rev svds) 0 y)" by auto
  have "wf_array x'"
    by (rule wf_for_each[OF _ wf x'(1)]) (auto simp: and_then_eq_Inr dest: wf_tensordot)
  with x'(2) wf have "x' = inplace_loop g (rev svds) 0 y"
    using rotated_end[of "inplace_loop g (rev svds) 0 y" x'] by (simp add: wf_inplace_loop)
  also have "\<dots> = fold (\<lambda>k. mode_product k (g (svds ! k))) (rev [0..<length svds]) y"
    using n by (simp add: inplace_loop_rev)
  also have "\<dots> = fold (\<lambda>k. mode_product k (g (svds ! k))) [0..<length svds] y"
    by (rule fold_rev_modes[where n = "length svds"])
       (use n in \<open>simp_all add: mode_product_commute\<close>)
  finally show ?thesis using x'(1) by simp
qed

subsection \<open>The three loops\<close>

lemma s_pinv_pseudo_inverse: "s_pinv s = pseudo_inverse s"
  by (simp add: s_pinv_def pseudo_inverse_def inverse_eq_divide)

lemma shape_s_pinv [simp]: "shape (s_pinv s) = shape s"
  by (simp add: s_pinv_def)

lemma fold_update_upt:
  "m \<le> length sh \<Longrightarrow> fold (\<lambda>k sh. sh[k := v k]) [0..<m] sh = map v [0..<m] @ drop m sh"
proof (induction m)
  case 0
  then show ?case by simp
next
  case (Suc m)
  then have m: "m < length sh" by simp
  have "(map v [0..<m] @ drop m sh)[m := v m] = map v [0..<m] @ (drop m sh)[0 := v m]"
    by (simp add: list_update_append)
  also have "(drop m sh)[0 := v m] = v m # drop (Suc m) sh"
    using m by (simp add: Cons_nth_drop_Suc[symmetric])
  finally show ?case using Suc by simp
qed

lemma shape_fold_mode_product:
  "shape (fold (\<lambda>k. mode_product k (M k)) ks y)
     = fold (\<lambda>k sh. sh[k := hd (shape (M k))]) ks (shape y)"
  by (induction ks arbitrary: y) simp_all

lemma shape_all_modes:
  "ndim y = n \<Longrightarrow>
   shape (fold (\<lambda>k. mode_product k (M k)) [0..<n] y) = map (\<lambda>k. hd (shape (M k))) [0..<n]"
  by (simp add: shape_fold_mode_product fold_update_upt ndim_def)

lemma wf_fold_mode_product:
  "wf_array y \<Longrightarrow> wf_array (fold (\<lambda>k. mode_product k (M k)) ks y)"
  by (induction ks arbitrary: y) simp_all

lemma fold_cong_inv:
  assumes "P x"
    and "\<And>k x. k \<in> set ks \<Longrightarrow> P x \<Longrightarrow> F k x = G k x \<and> P (G k x)"
  shows "fold F ks x = fold G ks x"
  using assms
proof (induction ks arbitrary: x)
  case Nil
  then show ?case by simp
next
  case (Cons k ks)
  from Cons.prems(2)[of k x] Cons.prems(1) have a: "F k x = G k x" "P (G k x)" by simp_all
  have "fold F ks (G k x) = fold G ks (G k x)"
    by (rule Cons.IH[OF a(2)]) (use Cons.prems(2) in auto)
  with a show ?case by simp
qed

lemma shape_scale_mode [simp]: "shape (scale_mode k v x) = shape x"
  by (simp add: scale_mode_def)

lemma mode_product_diag:
  assumes "ndim s = 1" "k < ndim x" "shape x ! k = shape s ! 0"
  shows "mode_product k
           (tabulate [hd (shape s), hd (shape s)]
              (\<lambda>idx. if idx ! 0 = idx ! 1 then lookup (s_pinv s) [idx ! 0] else 0)) x
       = scale_mode k (pseudo_inverse s) x"
proof -
  define n where "n = shape s ! 0"
  from assms(1) have hs: "hd (shape s) = n"
    by (cases "shape s") (simp_all add: ndim_def n_def)
  define D where "D = tabulate [n, n] (\<lambda>idx. if idx ! 0 = idx ! 1 then lookup (s_pinv s) [idx ! 0] else 0)"
  have shx: "(shape x)[k := n] = shape x"
    unfolding n_def assms(3)[symmetric] by (rule list_update_id)
  have "tabulate (shape x) (\<lambda>idx. \<Sum>j\<leftarrow>[0..<n]. lookup D [idx ! k, j] * lookup x (idx[k := j]))
      = tabulate (shape x) (\<lambda>idx. lookup (pseudo_inverse s) [idx ! k] * lookup x idx)"
  proof (rule tabulate_cong)
    fix idx assume v: "valid_index (shape x) idx"
    then have ik: "idx ! k < n"
      using valid_index_nth[OF v, of k] assms(2,3) by (simp add: ndim_def n_def)
    have "(\<Sum>j\<leftarrow>[0..<n]. lookup D [idx ! k, j] * lookup x (idx[k := j]))
        = (\<Sum>j<n. if j = idx ! k then lookup (s_pinv s) [idx ! k] * lookup x (idx[k := j]) else 0)"
      unfolding sum_list_upt
    proof (rule sum.cong)
      fix j assume "j \<in> {..<n}"
      then have "valid_index [n, n] [idx ! k, j]" using ik by simp
      then show "lookup D [idx ! k, j] * lookup x (idx[k := j])
        = (if j = idx ! k then lookup (s_pinv s) [idx ! k] * lookup x (idx[k := j]) else 0)"
        by (auto simp: D_def lookup_tabulate)
    qed simp
    also have "\<dots> = lookup (s_pinv s) [idx ! k] * lookup x (idx[k := idx ! k])"
      using ik by simp
    finally show "(\<Sum>j\<leftarrow>[0..<n]. lookup D [idx ! k, j] * lookup x (idx[k := j]))
        = lookup (pseudo_inverse s) [idx ! k] * lookup x idx"
      by (simp add: s_pinv_pseudo_inverse)
  qed
  then show ?thesis
    by (simp add: mode_product_def scale_mode_def hs D_def shx assms(3) n_def[symmetric])
qed

lemma reduced_svd_all:
  "reduced_svd svd fs \<Longrightarrow> \<exists>svds. svd_all svd fs = Inr svds \<and> list_all2 svd_shapes_ok fs svds"
proof (induction fs)
  case Nil
  then show ?case by simp
next
  case (Cons f fs)
  then obtain svds where "svd_all svd fs = Inr svds" "list_all2 svd_shapes_ok fs svds"
    by (auto simp: reduced_svd_def)
  moreover from Cons.prems obtain t where "svd f = Inr t" "svd_shapes_ok f t"
    by (auto simp: reduced_svd_def split: sum.splits)
  ultimately show ?case by simp
qed

lemma shape_transpose_nd [simp]: "shape (transpose_nd a) = rev (shape a)"
  by (simp add: transpose_nd_def)

lemma ascontiguousarray_id: "shape a \<noteq> [] \<Longrightarrow> ascontiguousarray a = a"
  by (simp add: ascontiguousarray_def)

lemma wf_ascontiguousarray: "wf_array a \<Longrightarrow> wf_array (ascontiguousarray a)"
  by (simp add: ascontiguousarray_def wf_array_def size_of_def)

lemma estimate_core_tensor_stages:
  assumes m: "matching factors X"
    and ok: "list_all2 svd_shapes_ok factors svds"
  shows "for_each contract_U (rev svds) X = Inr
           (along_modes (\<lambda>k t. case t of (U, s, Vh) \<Rightarrow> mode_product k (transpose_nd U)) svds X)" (is "?A")
    and "and_then (for_each contract_U (rev svds) X) (\<lambda>X1.
         and_then (for_each scale_s (rev svds) X1) (\<lambda>X2.
         for_each contract_Vh (rev svds) X2)) = Inr (core_by_modes svds X)" (is "?B")
    and "wf_array (core_by_modes svds X)" (is "?C")
    and "shape (core_by_modes svds X) = map (\<lambda>f. shape f ! 1) factors" (is "?D")
proof -
  define n where "n = length svds"
  have lf: "length factors = n" using ok by (simp add: n_def list_all2_lengthD)
  have nx: "ndim X = n" using m lf by (metis length_map matching_def ndim_def)
  have wfX: "wf_array X" using m by (simp add: matching_def)
  define g1 :: "svd_result \<Rightarrow> ndarray" where "g1 = (\<lambda>t. case t of (U, s, Vh) \<Rightarrow> transpose_nd U)"
  define g2 :: "svd_result \<Rightarrow> ndarray" where "g2 = (\<lambda>t. case t of (U, s, Vh) \<Rightarrow>
     tabulate [hd (shape s), hd (shape s)]
       (\<lambda>idx. if idx ! 0 = idx ! 1 then lookup (s_pinv s) [idx ! 0] else 0))"
  define g3 :: "svd_result \<Rightarrow> ndarray" where "g3 = (\<lambda>t. case t of (U, s, Vh) \<Rightarrow> transpose_nd Vh)"
  define kk where "kk = (\<lambda>k. case svds ! k of (U, s, Vh) \<Rightarrow> shape s ! 0)"
  have facts: "ndim s = 1 \<and> shape U = [shape X ! k, kk k] \<and> shape Vh = [kk k, shape (factors ! k) ! 1]"
    if "k < n" "svds ! k = (U, s, Vh)" for k U s Vh
  proof -
    from that lf have "k < length factors" by simp
    with ok have "svd_shapes_ok (factors ! k) (svds ! k)"
      by (rule list_all2_nthD)
    moreover have "shape (factors ! k) ! 0 = shape X ! k"
      using m that lf by (metis matching_def nth_map)
    ultimately show ?thesis using that by (simp add: svd_shapes_ok_def kk_def)
  qed
  have b1: "contract_U = (\<lambda>t x. and_then (Inr (g1 t)) (\<lambda>m. tensordot_1_last m x))"
    by (intro ext) (simp add: contract_U_def g1_def split: prod.splits)
  have b2: "for_each scale_s (rev svds) y
          = for_each (\<lambda>t x. and_then (np_diag (s_pinv (fst (snd t)))) (\<lambda>m. tensordot_1_last m x)) (rev svds) y" for y
  proof -
    have "scale_s = (\<lambda>t x. and_then (np_diag (s_pinv (fst (snd t)))) (\<lambda>m. tensordot_1_last m x))"
      by (intro ext) (simp add: scale_s_def split: prod.splits)
    then show ?thesis by simp
  qed
  have b3: "contract_Vh = (\<lambda>t x. and_then (Inr (g3 t)) (\<lambda>m. tensordot_1_last m x))"
    by (intro ext) (simp add: contract_Vh_def g3_def split: prod.splits)
  define X1 where "X1 = fold (\<lambda>k. mode_product k (g1 (svds ! k))) [0..<n] X"
  define X2 where "X2 = fold (\<lambda>k. mode_product k (g2 (svds ! k))) [0..<n] X1"
  define X3 where "X3 = fold (\<lambda>k. mode_product k (g3 (svds ! k))) [0..<n] X2"
  have s1: "for_each contract_U (rev svds) X = Inr X1"
    unfolding b1 X1_def n_def
  proof (rule loop_is_mode_products)
    fix k assume k: "k < length svds"
    obtain U s Vh where t: "svds ! k = (U, s, Vh)" by (cases "svds ! k")
    from facts[OF _ t] k
    show "Inr (g1 (svds ! k)) = Inr (g1 (svds ! k)) \<and> ndim (g1 (svds ! k)) = 2
        \<and> shape (g1 (svds ! k)) ! 1 = shape X ! k"
      by (simp add: g1_def t ndim_def n_def)
  qed (use nx wfX in \<open>simp_all add: n_def\<close>)
  have shX1: "shape X1 = map kk [0..<n]"
  proof -
    have "hd (shape (g1 (svds ! k))) = kk k" if "k < n" for k
    proof -
      obtain U s Vh where t: "svds ! k = (U, s, Vh)" by (cases "svds ! k")
      from facts[OF that t] show ?thesis by (simp add: g1_def t)
    qed
    then show ?thesis using nx by (simp add: X1_def shape_all_modes)
  qed
  have wfX1: "wf_array X1" using wfX by (simp add: X1_def wf_fold_mode_product)
  have nX1: "ndim X1 = n" by (simp add: ndim_def shX1)
  have s2: "for_each scale_s (rev svds) X1 = Inr X2"
    unfolding b2 X2_def n_def
  proof (rule loop_is_mode_products)
    fix k assume k: "k < length svds"
    obtain U s Vh where t: "svds ! k = (U, s, Vh)" by (cases "svds ! k")
    from facts[OF _ t] k have s: "ndim s = 1" "kk k = shape s ! 0"
      by (simp_all add: n_def kk_def t)
    then have hs: "hd (shape s) = shape s ! 0" by (cases "shape s") (simp_all add: ndim_def)
    have "np_diag (s_pinv (fst (snd (svds ! k)))) = Inr (g2 (svds ! k))"
      using s by (simp add: np_diag_def ndim_def g2_def t)
    moreover have "ndim (g2 (svds ! k)) = 2" by (simp add: g2_def t)
    moreover have "shape (g2 (svds ! k)) ! 1 = shape X1 ! k"
      using k s hs by (simp add: g2_def t shX1 n_def)
    ultimately show "np_diag (s_pinv (fst (snd (svds ! k)))) = Inr (g2 (svds ! k))
        \<and> ndim (g2 (svds ! k)) = 2 \<and> shape (g2 (svds ! k)) ! 1 = shape X1 ! k"
      by simp
  qed (use nX1 wfX1 in \<open>simp_all add: n_def\<close>)
  have X2_scale: "X2 = fold (\<lambda>k. case svds ! k of (U, s, Vh) \<Rightarrow> scale_mode k (pseudo_inverse s)) [0..<n] X1"
    unfolding X2_def
  proof (rule fold_cong_inv[where P = "\<lambda>x. shape x = shape X1"])
    fix k x assume k: "k \<in> set [0..<n]" and x: "shape x = shape X1"
    obtain U s Vh where t: "svds ! k = (U, s, Vh)" by (cases "svds ! k")
    from facts[OF _ t] k have s: "ndim s = 1" "kk k = shape s ! 0"
      by (simp_all add: kk_def t)
    have "mode_product k (g2 (svds ! k)) x = scale_mode k (pseudo_inverse s) x"
      unfolding g2_def t prod.case
      by (rule mode_product_diag) (use s k x shX1 in \<open>simp_all add: ndim_def\<close>)
    then show "mode_product k (g2 (svds ! k)) x
         = (case svds ! k of (U, s, Vh) \<Rightarrow> scale_mode k (pseudo_inverse s)) x
       \<and> shape ((case svds ! k of (U, s, Vh) \<Rightarrow> scale_mode k (pseudo_inverse s)) x) = shape X1"
      using x by (simp add: t)
  qed simp
  have shX2: "shape X2 = map kk [0..<n]"
  proof -
    have "hd (shape (g2 (svds ! k))) = kk k" if "k < n" for k
    proof -
      obtain U s Vh where t: "svds ! k = (U, s, Vh)" by (cases "svds ! k")
      from facts[OF that t] have "ndim s = 1" by simp
      then have "hd (shape s) = shape s ! 0" by (cases "shape s") (simp_all add: ndim_def)
      then show ?thesis by (simp add: g2_def t kk_def)
    qed
    then show ?thesis using nX1 by (simp add: X2_def shape_all_modes)
  qed
  have wfX2: "wf_array X2" using wfX1 by (simp add: X2_def wf_fold_mode_product)
  have nX2: "ndim X2 = n" by (simp add: ndim_def shX2)
  have s3: "for_each contract_Vh (rev svds) X2 = Inr X3"
    unfolding b3 X3_def n_def
  proof (rule loop_is_mode_products)
    fix k assume k: "k < length svds"
    obtain U s Vh where t: "svds ! k = (U, s, Vh)" by (cases "svds ! k")
    from facts[OF _ t] k
    show "Inr (g3 (svds ! k)) = Inr (g3 (svds ! k)) \<and> ndim (g3 (svds ! k)) = 2
        \<and> shape (g3 (svds ! k)) ! 1 = shape X2 ! k"
      by (simp add: g3_def t ndim_def n_def shX2)
  qed (use nX2 wfX2 in \<open>simp_all add: n_def\<close>)
  have a1: "along_modes (\<lambda>k t. case t of (U, s, Vh) \<Rightarrow> mode_product k (transpose_nd U)) svds X = X1"
    by (simp add: along_modes_def X1_def g1_def n_def case_prod_beta)
  have a2: "along_modes (\<lambda>k t. case t of (U, s, Vh) \<Rightarrow> scale_mode k (pseudo_inverse s)) svds X1 = X2"
    by (simp add: along_modes_def X2_scale n_def case_prod_beta)
  have a3: "along_modes (\<lambda>k t. case t of (U, s, Vh) \<Rightarrow> mode_product k (transpose_nd Vh)) svds X2 = X3"
    by (simp add: along_modes_def X3_def g3_def n_def case_prod_beta)
  have core: "core_by_modes svds X = X3"
    by (simp only: core_by_modes_def Let_def a1 a2 a3)
  show ?A by (simp only: a1 s1)
  show ?B by (simp add: s1 s2 s3 core)
  show ?C using wfX2 by (simp add: core X3_def wf_fold_mode_product)
  have "hd (shape (g3 (svds ! k))) = shape (factors ! k) ! 1" if "k < n" for k
  proof -
    obtain U s Vh where t: "svds ! k = (U, s, Vh)" by (cases "svds ! k")
    from facts[OF that t] show ?thesis by (simp add: g3_def t)
  qed
  then have "shape X3 = map (\<lambda>k. shape (factors ! k) ! 1) [0..<n]"
    using nX2 by (simp add: X3_def shape_all_modes)
  also have "\<dots> = map (\<lambda>f. shape f ! 1) factors"
    using lf by (intro nth_equalityI) simp_all
  finally show ?D by (simp add: core)
qed

subsection \<open>\<open>estimate_core_tensor\<close> computes the mode products\<close>

lemma estimate_core_tensor_modes:
  assumes "matching factors X" and "reduced_svd svd factors"
  shows "\<exists>svds. svd_all svd factors = Inr svds
       \<and> list_all2 svd_shapes_ok factors svds
       \<and> estimate_core_tensor svd factors X = Inr (ascontiguousarray (core_by_modes svds X))
       \<and> wf_array (core_by_modes svds X)
       \<and> shape (core_by_modes svds X) = map (\<lambda>f. shape f ! 1) factors"
proof -
  from reduced_svd_all[OF assms(2)] obtain svds
    where sv: "svd_all svd factors = Inr svds" and ok: "list_all2 svd_shapes_ok factors svds" by blast
  note st = estimate_core_tensor_stages[OF assms(1) ok]
  have "estimate_core_tensor svd factors X = Inr (ascontiguousarray (core_by_modes svds X))"
    using st(2) sv by (auto simp: estimate_core_tensor_def and_then_eq_Inr)
  with sv ok st(3,4) show ?thesis by blast
qed

text \<open>
  C2. For factor matrices and a data tensor of matching shape, with \<open>svd\<close>
  returning a reduced decomposition \<open>(U, s, Vh)\<close> of every factor matrix,
  \<open>estimate_core_tensor\<close> returns the tensor obtained by contracting \<open>X\<close> along
  every mode with \<open>U\<close> transposed, then scaling along every mode by the
  pseudo-inverse of \<open>s\<close>, then contracting along every mode with \<open>Vh\<close> transposed.
  The reciprocal that the code takes under its mask is that pseudo-inverse, zero at
  the zero singular values. The result is dense: it has one entry for every index
  of its shape, which is the numbers of columns of the factor matrices.
\<close>

theorem estimate_core_tensor_refines:
  assumes "matching factors X" and "reduced_svd svd factors"
  shows "\<exists>svds. svd_all svd factors = Inr svds
       \<and> estimate_core_tensor svd factors X = Inr (ascontiguousarray (core_by_modes svds X))
       \<and> wf_array (ascontiguousarray (core_by_modes svds X))
       \<and> (factors \<noteq> [] \<longrightarrow>
            ascontiguousarray (core_by_modes svds X) = core_by_modes svds X
            \<and> shape (core_by_modes svds X) = map (\<lambda>f. shape f ! 1) factors)
       \<and> (\<forall>s. s_pinv s = pseudo_inverse s)"
proof -
  from estimate_core_tensor_modes[OF assms] obtain svds
    where sv: "svd_all svd factors = Inr svds"
      and e: "estimate_core_tensor svd factors X = Inr (ascontiguousarray (core_by_modes svds X))"
      and wf: "wf_array (core_by_modes svds X)"
      and sh: "shape (core_by_modes svds X) = map (\<lambda>f. shape f ! 1) factors"
    by blast
  have "ascontiguousarray (core_by_modes svds X) = core_by_modes svds X" if "factors \<noteq> []"
    by (rule ascontiguousarray_id) (use that sh in simp)
  with sv e wf sh show ?thesis
    by (auto intro: wf_ascontiguousarray simp: s_pinv_pseudo_inverse)
qed

theorem estimate_core_tensor_refines_witness:
  "matching [NDArray [2, 1] [3, 4], NDArray [1, 1] [2]] (NDArray [2, 1] [6, 8])
   \<and> reduced_svd svd_example [NDArray [2, 1] [3, 4], NDArray [1, 1] [2]]
   \<and> estimate_core_tensor svd_example [NDArray [2, 1] [3, 4], NDArray [1, 1] [2]]
        (NDArray [2, 1] [6, 8]) = Inr (NDArray [1, 1] [1])"
proof -
  let ?fs = "[NDArray [2, 1] [3, 4], NDArray [1, 1] [2]]"
  let ?X = "NDArray [2, 1] [6, 8]"
  let ?svds = "[(NDArray [2, 1] [3 / 5, 4 / 5], NDArray [1] [5], NDArray [1, 1] [1]),
                (NDArray [1, 1] [1], NDArray [1] [2], NDArray [1, 1] [1])]"
  have m: "matching ?fs ?X" by code_simp
  have r: "reduced_svd svd_example ?fs" by code_simp
  have sv: "svd_all svd_example ?fs = Inr ?svds" by code_simp
  have c: "ascontiguousarray (core_by_modes ?svds ?X) = NDArray [1, 1] [1]" by code_simp
  from estimate_core_tensor_refines[OF m r] sv c m r show ?thesis by auto
qed

subsection \<open>\<open>core_consistency\<close>\<close>

lemma bshape_rev_same: "bshape_rev xs xs = Some xs"
  by (induction xs) simp_all

lemma broadcast_shapes_same: "broadcast_shapes sh sh = Some sh"
  by (simp add: broadcast_shapes_def bshape_rev_same)

lemma bidx_same: "valid_index sh idx \<Longrightarrow> bidx sh idx = idx"
proof -
  assume v: "valid_index sh idx"
  then have l: "length idx = length sh" by (rule valid_index_length)
  show ?thesis
  proof (rule nth_equalityI)
    show "length (bidx sh idx) = length idx" using l by (simp add: bidx_def)
    fix i assume "i < length (bidx sh idx)"
    then have i: "i < length sh" using l by (simp add: bidx_def)
    with v have "idx ! i < sh ! i" by (rule valid_index_nth)
    with i l show "bidx sh idx ! i = idx ! i" by (auto simp: bidx_def)
  qed
qed

lemma np_subtract_same_shape:
  assumes "shape a = shape b"
  shows "np_subtract a b = Inr (tabulate (shape a) (\<lambda>idx. lookup a idx - lookup b idx))"
proof -
  have "tabulate (shape a) (\<lambda>idx. lookup a (bidx (shape a) idx) - lookup b (bidx (shape a) idx))
      = tabulate (shape a) (\<lambda>idx. lookup a idx - lookup b idx)"
    by (rule tabulate_cong) (simp add: bidx_same)
  then show ?thesis
    by (simp add: np_subtract_def assms[symmetric] broadcast_shapes_same)
qed

lemma np_sum_square_tabulate:
  "np_sum (square (tabulate sh f)) = (\<Sum>idx\<leftarrow>all_indices sh. (f idx)\<^sup>2)"
  by (simp add: np_sum_def square_def tabulate_def comp_def)

lemma np_sum_square: "wf_array g \<Longrightarrow> np_sum (square g) = sum_squares g"
  using np_sum_square_tabulate[of "shape g" "lookup g"]
  by (simp add: tabulate_lookup sum_squares_def)

lemma all_equal_replicate [simp]: "all_equal (replicate n r)"
  by (cases n) (simp_all add: all_equal_def list_all_iff)

lemma fill_diagonal_zeros:
  assumes "2 \<le> n"
  shows "fill_diagonal (np_zeros (replicate n r)) 1 = Inr (superdiagonal r n)"
proof -
  have "tabulate (replicate n r)
          (\<lambda>idx. if all_equal idx then 1 else lookup (np_zeros (replicate n r)) idx)
      = tabulate (replicate n r) (\<lambda>idx. if all_equal idx then 1 else 0)"
    by (rule tabulate_cong) (simp add: np_zeros_def lookup_tabulate)
  moreover have "shape (np_zeros (replicate n r)) = replicate n r"
    by (simp add: np_zeros_def)
  ultimately show ?thesis
    using assms by (simp add: fill_diagonal_def superdiagonal_def ndim_def)
qed

lemma distribute_weights_columns:
  assumes "shape f = [m, r]" "wf_weights weights r"
  shows "distribute_weights weights f = Inr (weighted_first weights f)"
proof (cases weights)
  case None
  then show ?thesis by (simp add: distribute_weights_def weighted_first_def)
next
  case (Some w)
  with assms(2) have w: "shape w = [r]" by (simp add: wf_weights_def)
  have b: "broadcast_shapes [m, r] [1, r] = Some [m, r]"
    by (simp add: broadcast_shapes_def)
  have "tabulate [m, r] (\<lambda>idx. lookup f idx * lookup (reshape_row w) (bidx [1, r] idx))
      = tabulate [m, r] (\<lambda>idx. lookup f idx * lookup w [idx ! 1])"
  proof (rule tabulate_cong)
    fix idx assume "valid_index [m, r] idx"
    then obtain i j where idx: "idx = [i, j]" and ij: "i < m" "j < r"
      by (cases idx; cases "tl idx") (auto simp: valid_index_def)
    have "lookup (reshape_row w) (bidx [1, r] idx) = data w ! j"
      using ij by (auto simp: reshape_row_def bidx_def idx lookup_def size_of_def w)
    moreover have "lookup w [idx ! 1] = data w ! j"
      by (simp add: lookup_def w idx)
    ultimately show "lookup f idx * lookup (reshape_row w) (bidx [1, r] idx)
        = lookup f idx * lookup w [idx ! 1]" by simp
  qed
  then show ?thesis
    using Some assms(1) w b
    by (simp add: distribute_weights_def weighted_first_def np_imultiply_def reshape_row_def
        size_of_def scale_columns_def)
qed

lemma shape_weighted_first [simp]: "shape (weighted_first weights f) = shape f"
  by (cases weights) (simp_all add: weighted_first_def scale_columns_def)

lemma core_consistency_value:
  assumes X: "2 \<le> ndim X"
    and f: "shape f = [m, r]" and w: "wf_weights weights r"
    and G: "estimate_core_tensor svd (weighted_first weights f # fs) X = Inr G"
    and wfG: "wf_array G" and shG: "shape G = replicate (ndim X) r"
  shows "core_consistency svd (weights, f # fs) X normalised
       = Inr (rsub 100 (true_divide
           (100 * sum_squared_difference G (superdiagonal r (ndim X)))
           (if normalised then sum_squares G else real r)))"
proof -
  have rk: "rank_of (f # fs) = Inr r" using f by (simp add: rank_of_def ndim_def)
  have T: "fill_diagonal (np_zeros (replicate (ndim X) r)) 1 = Inr (superdiagonal r (ndim X))"
    using X by (rule fill_diagonal_zeros)
  have shT: "shape (superdiagonal r (ndim X)) = shape G" by (simp add: superdiagonal_def shG)
  have D: "np_subtract G (superdiagonal r (ndim X))
      = Inr (tabulate (shape G) (\<lambda>idx. lookup G idx - lookup (superdiagonal r (ndim X)) idx))"
    by (rule np_subtract_same_shape) (simp add: shT)
  show ?thesis
    using rk distribute_weights_columns[OF f w] G T D
    by (simp add: core_consistency_def np_sum_square_tabulate np_sum_square[OF wfG]
        sum_squared_difference_def Let_def)
qed

lemma core_consistency_matching:
  assumes X: "2 \<le> ndim X"
    and m: "matching (f # fs) X"
    and rk: "list_all (\<lambda>g. shape g ! 1 = shape f ! 1) fs"
    and w: "wf_weights weights (shape f ! 1)"
    and svd: "reduced_svd svd (weighted_first weights f # fs)"
  shows "\<exists>G. estimate_core_tensor svd (weighted_first weights f # fs) X = Inr G
       \<and> shape G = replicate (ndim X) (shape f ! 1)
       \<and> core_consistency svd (weights, f # fs) X normalised
           = Inr (rsub 100 (true_divide
               (100 * sum_squared_difference G (superdiagonal (shape f ! 1) (ndim X)))
               (if normalised then sum_squares G else real (shape f ! 1))))"
proof -
  define r where "r = shape f ! 1"
  let ?A = "weighted_first weights f"
  from m have "ndim f = 2" by (simp add: matching_def)
  then obtain m' where f: "shape f = [m', r]"
    unfolding r_def ndim_def
    by (cases "shape f"; cases "tl (shape f)") auto
  have m': "matching (?A # fs) X" using m by (simp add: matching_def ndim_def)
  from estimate_core_tensor_modes[OF m' svd] obtain svds
    where e: "estimate_core_tensor svd (?A # fs) X = Inr (ascontiguousarray (core_by_modes svds X))"
      and wf: "wf_array (core_by_modes svds X)"
      and sh: "shape (core_by_modes svds X) = map (\<lambda>f. shape f ! 1) (?A # fs)"
    by blast
  define G where "G = core_by_modes svds X"
  have "ascontiguousarray G = G" by (rule ascontiguousarray_id) (simp add: G_def sh)
  with e have eG: "estimate_core_tensor svd (?A # fs) X = Inr G" by (simp add: G_def)
  have "length (f # fs) = ndim X" using m by (metis length_map matching_def ndim_def)
  moreover have "map (\<lambda>f. shape f ! 1) (?A # fs) = replicate (length (f # fs)) r"
    using rk by (auto simp: r_def list_all_iff map_replicate_const[symmetric] intro!: map_cong)
  ultimately have shG: "shape G = replicate (ndim X) r" by (simp add: G_def sh)
  from core_consistency_value[OF X f _ eG _ shG, of normalised] w wf
  show ?thesis using eG shG by (auto simp: G_def r_def)
qed


lemma sum_list_squares_zero:
  "list_all (\<lambda>x. x = 0) xs \<Longrightarrow> sum_list (map (\<lambda>x. x\<^sup>2) xs) = (0::real)"
  by (induction xs) simp_all




text \<open>
  C9 (as stated it fails for a data tensor with one mode). For the factor matrix
  \<open>[[1]]\<close> and the data tensor \<open>[0]\<close> the estimated core is \<open>[0]\<close>, entirely zero,
  and with \<open>normalised=True\<close> the call raises the ValueError of \<open>np.fill_diagonal\<close>.
\<close>

theorem one_mode_zero_core_raises:
  "estimate_core_tensor svd_example [weighted_first None (NDArray [1, 1] [1])] (NDArray [1] [0])
       = Inr (NDArray [1] [0])
   \<and> core_consistency svd_example (None, [NDArray [1, 1] [1]]) (NDArray [1] [0]) True
       = Inl (ValueError ''array must be at least 2-d'')"
  by code_simp

text \<open>
  C9, amended. For a CP tensor and a matching data tensor with at least two modes:
  when \<open>normalised\<close> is set and every entry of the estimated core is zero,
  \<open>core_consistency\<close> raises nothing and returns a non-finite value. (The division
  by zero yields inf or nan under numpy's default error state, which warns; the
  two are the token \<open>NonFinite\<close> here.)
\<close>

theorem core_consistency_zero_core:
  assumes "2 \<le> ndim X"
    and "matching (f # fs) X"
    and "list_all (\<lambda>g. shape g ! 1 = shape f ! 1) fs"
    and "wf_weights weights (shape f ! 1)"
    and "reduced_svd svd (weighted_first weights f # fs)"
    and "estimate_core_tensor svd (weighted_first weights f # fs) X = Inr G"
    and "list_all (\<lambda>x. x = 0) (data G)"
  shows "core_consistency svd (weights, f # fs) X True = Inr NonFinite"
proof -
  from core_consistency_matching[OF assms(1-5), of True] assms(6)
  have cc: "core_consistency svd (weights, f # fs) X True
           = Inr (rsub 100 (true_divide
               (100 * sum_squared_difference G (superdiagonal (shape f ! 1) (ndim X)))
               (sum_squares G)))"
    by auto
  from estimate_core_tensor_modes[of "weighted_first weights f # fs" X svd] assms(2,5,6)
  have "wf_array G"
    by (auto simp: matching_def ndim_def intro: wf_ascontiguousarray)
  then have "sum_squares G = np_sum (square G)" by (simp add: np_sum_square)
  also have "\<dots> = 0"
    using assms(7) by (simp add: np_sum_def square_def sum_list_squares_zero)
  finally show ?thesis using cc by (simp add: true_divide_def rsub_def)
qed

theorem core_consistency_zero_core_witness:
  "2 \<le> ndim (NDArray [2, 2] [0, 0, 0, 0])
   \<and> matching [NDArray [2, 2] [1, 0, 0, 1], NDArray [2, 2] [1, 0, 0, 1]] (NDArray [2, 2] [0, 0, 0, 0])
   \<and> reduced_svd svd_example
        [weighted_first None (NDArray [2, 2] [1, 0, 0, 1]), NDArray [2, 2] [1, 0, 0, 1]]
   \<and> estimate_core_tensor svd_example
        [weighted_first None (NDArray [2, 2] [1, 0, 0, 1]), NDArray [2, 2] [1, 0, 0, 1]]
        (NDArray [2, 2] [0, 0, 0, 0]) = Inr (NDArray [2, 2] [0, 0, 0, 0])
   \<and> core_consistency svd_example
        (None, [NDArray [2, 2] [1, 0, 0, 1], NDArray [2, 2] [1, 0, 0, 1]])
        (NDArray [2, 2] [0, 0, 0, 0]) True = Inr NonFinite"
proof -
  let ?I = "NDArray [2, 2] [1, 0, 0, 1]"
  let ?X = "NDArray [2, 2] [0, 0, 0, 0]"
  have h1: "2 \<le> ndim ?X" by code_simp
  have h2: "matching [?I, ?I] ?X" by code_simp
  have h3: "list_all (\<lambda>g. shape g ! 1 = shape ?I ! 1) [?I]" by code_simp
  have h4: "wf_weights None (shape ?I ! 1)" by code_simp
  have h5: "reduced_svd svd_example [weighted_first None ?I, ?I]" by code_simp
  have h6: "estimate_core_tensor svd_example [weighted_first None ?I, ?I] ?X = Inr ?X" by code_simp
  have h7: "list_all (\<lambda>x. x = 0) (data ?X)" by simp
  from core_consistency_zero_core[OF h1 h2 h3 h4 h5 h6 h7] h1 h2 h5 h6
  show ?thesis by simp
qed

subsection \<open>The store: what a call of \<open>core_consistency\<close> changes\<close>

lemma extends_refl [simp]: "extends st st"
  by (simp add: extends_def)

lemma extends_length: "extends st st' \<Longrightarrow> length st \<le> length st'"
proof -
  assume "extends st st'"
  then have "length (take (length st) st') = length st" by (simp add: extends_def)
  then show ?thesis by simp
qed

lemma extends_nth: "extends st st' \<Longrightarrow> p < length st \<Longrightarrow> st' ! p = st ! p"
  unfolding extends_def by (metis nth_take)

lemma extends_trans: "extends st st' \<Longrightarrow> extends st' st'' \<Longrightarrow> extends st st''"
proof -
  assume a: "extends st st'" and b: "extends st' st''"
  have "take (length st) st'' = take (length st) (take (length st') st'')"
    using extends_length[OF a] by (simp add: min_def)
  with a b show ?thesis by (simp add: extends_def)
qed

lemma extends_append [simp]: "extends st (st @ xs)"
  by (simp add: extends_def)

lemma extends_snoc: "extends st0 st \<Longrightarrow> extends st0 (st @ xs)"
  by (erule extends_trans) simp

lemma extends_new_array: "extends st (snd (new_array a st))"
  by (simp add: new_array_def)

lemma extends_write_array:
  "extends st0 st \<Longrightarrow> length st0 \<le> p \<Longrightarrow> extends st0 (write_array p a st)"
  by (simp add: extends_def write_array_def)

lemma then_run_Inl [simp]: "then_run (Inl e, st) f = (Inl e, st)"
  by (simp add: then_run_def)

lemma then_run_Inr [simp]: "then_run (Inr x, st) f = f x st"
  by (simp add: then_run_def)

lemma extends_then_run:
  assumes "extends st0 (snd m)"
    and "\<And>x st. extends st0 st \<Longrightarrow> extends st0 (snd (f x st))"
  shows "extends st0 (snd (then_run m f))"
proof (cases m)
  case (Pair r st)
  with assms show ?thesis by (cases r) simp_all
qed

lemma extends_new_result: "extends st0 st \<Longrightarrow> extends st0 (snd (new_result r st))"
  by (cases r) (auto simp: new_result_def new_array_def intro: extends_trans)

lemma extends_update_result:
  "extends st0 st \<Longrightarrow> length st0 \<le> p \<Longrightarrow> extends st0 (snd (update_result p r st))"
  by (cases r) (simp_all add: update_result_def extends_write_array)

lemma extends_svd_all_st: "extends st0 st \<Longrightarrow> extends st0 (snd (svd_all_st svd fs st))"
proof (induction fs arbitrary: st)
  case Nil
  then show ?case by simp
next
  case (Cons f fs)
  show ?case
  proof (cases "svd (st ! f)")
    case (Inl e)
    with Cons.prems show ?thesis by simp
  next
    case (Inr t)
    obtain U s Vh where t: "t = (U, s, Vh)" by (cases t)
    have "extends st0 (st @ [U, s, Vh])"
      using Cons.prems by (rule extends_trans) simp
    then have "extends st0 (snd (svd_all_st svd fs (st @ [U, s, Vh])))"
      by (rule Cons.IH)
    then show ?thesis
      using Inr t by (auto simp: new_array_def intro!: extends_then_run)
  qed
qed

lemma extends_for_each_st:
  assumes "\<And>t x st. extends st0 st \<Longrightarrow> extends st0 (snd (body t x st))"
  shows "extends st0 st \<Longrightarrow> extends st0 (snd (for_each_st body ts x st))"
proof (induction ts arbitrary: x st)
  case Nil
  then show ?case by simp
next
  case (Cons t ts)
  show ?case
    unfolding for_each_st.simps
    by (rule extends_then_run) (use Cons assms in auto)
qed

lemma extends_contract_U_st: "extends st0 st \<Longrightarrow> extends st0 (snd (contract_U_st t x st))"
  by (cases t) (simp add: contract_U_st_def extends_new_result)

lemma extends_contract_Vh_st: "extends st0 st \<Longrightarrow> extends st0 (snd (contract_Vh_st t x st))"
  by (cases t) (simp add: contract_Vh_st_def extends_new_result)

lemma extends_scale_s_st:
  assumes "extends st0 st"
  shows "extends st0 (snd (scale_s_st t x st))"
proof -
  obtain U s Vh where t: "t = (U, s, Vh)" by (cases t)
  have "extends st0 (st @ [st ! s])" using assms by (rule extends_trans) simp
  then have "extends st0 (write_array (length st) (s_pinv ((st @ [st ! s]) ! length st)) (st @ [st ! s]))"
    by (rule extends_write_array) (rule extends_length[OF assms])
  then show ?thesis
    by (simp add: scale_s_st_def t new_array_def Let_def extends_new_result)
qed

lemma extends_estimate_core_tensor_st:
  assumes "extends st0 st"
  shows "extends st0 (snd (estimate_core_tensor_st svd fs X st))"
  unfolding estimate_core_tensor_st_def
  by (intro extends_then_run extends_svd_all_st extends_for_each_st assms
      extends_contract_U_st extends_scale_s_st extends_contract_Vh_st)
     (auto simp: extends_new_result)

lemma extends_core_consistency_st:
  "extends st (snd (core_consistency_st svd cp X normalised st))"
proof -
  obtain weights factors where cp: "cp = (weights, factors)" by (cases cp)
  show ?thesis
  proof (cases "rank_of (map ((!) st) factors)")
    case (Inl e)
    with cp show ?thesis by (simp add: core_consistency_st_def)
  next
    case (Inr rank)
    define st1 where "st1 = st @ [st ! hd factors]"
    have e1: "extends st st1" by (simp add: st1_def)
    have w: "extends st (snd (case weights of
                       None \<Rightarrow> (Inr (), st1)
                     | Some w \<Rightarrow>
                         update_result (length st) (np_imultiply (st1 ! length st) (reshape_row (st1 ! w))) st1))"
      using e1 by (cases weights) (simp_all add: extends_update_result)
    show ?thesis
      using Inr cp
      by (simp add: core_consistency_st_def new_array_def st1_def[symmetric] Let_def)
         (auto intro!: extends_then_run w extends_estimate_core_tensor_st
            extends_update_result extends_snoc dest: extends_length)
  qed
qed


subsection \<open>The store and the values\<close>

lemma agrees_extends: "agrees st r v \<Longrightarrow> extends st (snd r)"
  by (simp add: agrees_def)

lemma agrees_trans: "extends st st1 \<Longrightarrow> agrees st1 r v \<Longrightarrow> agrees st r v"
  by (auto simp: agrees_def intro: extends_trans)

lemma agrees_new_result: "agrees st (new_result r st) r"
  by (cases r) (simp_all add: agrees_def new_result_def new_array_def)

lemma agrees_then_run:
  assumes "agrees st m v"
    and "\<And>p st1. m = (Inr p, st1) \<Longrightarrow> extends st st1 \<Longrightarrow> p < length st1 \<Longrightarrow> v = Inr (st1 ! p)
           \<Longrightarrow> agrees st1 (f p st1) (g (st1 ! p))"
  shows "agrees st (then_run m f) (and_then v g)"
proof (cases m)
  case (Pair r st1)
  show ?thesis
  proof (cases r)
    case (Inl e)
    with Pair assms(1) show ?thesis by (simp add: agrees_def)
  next
    case (Inr p)
    with Pair assms(1) have a: "extends st st1" "p < length st1" "v = Inr (st1 ! p)"
      by (simp_all add: agrees_def)
    from assms(2)[OF _ a] Pair Inr have "agrees st1 (f p st1) (g (st1 ! p))" by simp
    with a Pair Inr show ?thesis by (auto intro: agrees_trans)
  qed
qed

lemma valid_refs_extends: "valid_refs st t \<Longrightarrow> extends st st1 \<Longrightarrow> valid_refs st1 t"
  by (cases t) (auto simp: valid_refs_def dest: extends_length)

lemma deref_extends: "valid_refs st t \<Longrightarrow> extends st st1 \<Longrightarrow> deref st1 t = deref st t"
  by (cases t) (auto simp: valid_refs_def deref_def extends_nth)

lemma agrees_for_each_st:
  assumes body: "\<And>t x st. valid_refs st t \<Longrightarrow> x < length st \<Longrightarrow>
                   agrees st (body_st t x st) (body (deref st t) (st ! x))"
  shows "list_all (valid_refs st) ts \<Longrightarrow> x < length st \<Longrightarrow>
         agrees st (for_each_st body_st ts x st) (for_each body (map (deref st) ts) (st ! x))"
proof (induction ts arbitrary: x st)
  case Nil
  then show ?case by (simp add: agrees_def)
next
  case (Cons t ts)
  from Cons.prems have t: "valid_refs st t" and ts: "list_all (valid_refs st) ts" by simp_all
  show ?case
    unfolding for_each_st.simps list.map for_each.simps
  proof (rule agrees_then_run)
    show "agrees st (body_st t x st) (body (deref st t) (st ! x))"
      by (rule body[OF t Cons.prems(2)])
  next
    fix p st1 assume e: "extends st st1" and p: "p < length st1"
    have v: "list_all (valid_refs st1) ts"
      using ts e by (auto simp: list_all_iff intro: valid_refs_extends)
    have "map (deref st1) ts = map (deref st) ts"
      using ts e by (auto simp: list_all_iff intro: deref_extends)
    with Cons.IH[OF v p] show "agrees st1 (for_each_st body_st ts p st1)
        (for_each body (map (deref st) ts) (st1 ! p))" by simp
  qed
qed

lemma agrees_contract_U_st:
  "agrees st (contract_U_st t x st) (contract_U (deref st t) (st ! x))"
  by (cases t) (simp add: contract_U_st_def contract_U_def deref_def agrees_new_result)

lemma agrees_contract_Vh_st:
  "agrees st (contract_Vh_st t x st) (contract_Vh (deref st t) (st ! x))"
  by (cases t) (simp add: contract_Vh_st_def contract_Vh_def deref_def agrees_new_result)

lemma agrees_scale_s_st:
  assumes "valid_refs st t" "x < length st"
  shows "agrees st (scale_s_st t x st) (scale_s (deref st t) (st ! x))"
proof -
  obtain U s Vh where t: "t = (U, s, Vh)" by (cases t)
  define st2 where "st2 = st @ [s_pinv (st ! s)]"
  have st2: "write_array (length st) (s_pinv (st ! s)) (st @ [st ! s]) = st2"
    by (simp add: write_array_def st2_def)
  have rd: "st2 ! length st = s_pinv (st ! s)" "st2 ! x = st ! x"
    using assms(2) by (simp_all add: st2_def nth_append)
  have "agrees st2 (new_result (and_then (np_diag (s_pinv (st ! s))) (\<lambda>d. tensordot_1_last d (st ! x))) st2)
          (and_then (np_diag (s_pinv (st ! s))) (\<lambda>d. tensordot_1_last d (st ! x)))"
    by (rule agrees_new_result)
  moreover have "extends st st2" by (simp add: st2_def)
  ultimately show ?thesis
    by (simp add: scale_s_st_def scale_s_def t deref_def new_array_def Let_def st2 rd agrees_trans)
qed

lemma svd_all_st_agrees:
  "list_all (\<lambda>f. f < length st) fs \<Longrightarrow> svd_all_st svd fs st = (r, st') \<Longrightarrow>
   extends st st'
   \<and> (case r of
         Inl e \<Rightarrow> svd_all svd (map ((!) st) fs) = Inl e
       | Inr ts \<Rightarrow> list_all (valid_refs st') ts
                 \<and> svd_all svd (map ((!) st) fs) = Inr (map (deref st') ts))"
proof (induction fs arbitrary: st r st')
  case Nil
  then show ?case by auto
next
  case (Cons f fs)
  show ?case
  proof (cases "svd (st ! f)")
    case (Inl e)
    with Cons.prems(2) show ?thesis by auto
  next
    case (Inr t)
    obtain U s Vh where t: "t = (U, s, Vh)" by (cases t)
    define st3 where "st3 = st @ [U, s, Vh]"
    have e: "extends st st3" by (simp add: st3_def)
    have fs: "list_all (\<lambda>f. f < length st3) fs"
      using Cons.prems by (auto simp: list_all_iff st3_def)
    have same: "map ((!) st3) fs = map ((!) st) fs"
      using Cons.prems by (auto simp: list_all_iff st3_def nth_append)
    obtain r1 st1 where run: "svd_all_st svd fs st3 = (r1, st1)" by (cases "svd_all_st svd fs st3")
    from Cons.IH[OF fs run, unfolded same]
    have e': "extends st3 st1"
      and r1: "case r1 of Inl e \<Rightarrow> svd_all svd (map ((!) st) fs) = Inl e
              | Inr ts \<Rightarrow> list_all (valid_refs st1) ts
                  \<and> svd_all svd (map ((!) st) fs) = Inr (map (deref st1) ts)"
      by simp_all
    have whole: "(r, st') = then_run (r1, st1)
         (\<lambda>ts st'. (Inr ((length st, Suc (length st), Suc (Suc (length st))) # ts), st'))"
      using Inr t run Cons.prems(2) by (simp add: new_array_def st3_def)
    have ee: "extends st st1" using e e' by (rule extends_trans)
    show ?thesis
    proof (cases r1)
      case (Inl e)
      with r1 whole ee Inr t show ?thesis by simp
    next
      case r1_ok: (Inr ts)
      have v: "valid_refs st3 (length st, Suc (length st), Suc (Suc (length st)))"
        by (simp add: valid_refs_def st3_def)
      then have v': "valid_refs st1 (length st, Suc (length st), Suc (Suc (length st)))"
        using e' by (rule valid_refs_extends)
      have "deref st1 (length st, Suc (length st), Suc (Suc (length st)))
          = deref st3 (length st, Suc (length st), Suc (Suc (length st)))"
        using v e' by (rule deref_extends)
      also have "\<dots> = (U, s, Vh)" by (simp add: deref_def st3_def nth_append)
      finally have d: "deref st1 (length st, Suc (length st), Suc (Suc (length st))) = (U, s, Vh)" .
      from r1 r1_ok whole ee v' d Inr t show ?thesis by simp
    qed
  qed
qed

lemma agrees_estimate_core_tensor_st:
  assumes fs: "list_all (\<lambda>f. f < length st) fs" and X: "X < length st"
  shows "agrees st (estimate_core_tensor_st svd fs X st)
           (estimate_core_tensor svd (map ((!) st) fs) (st ! X))"
proof -
  obtain r st1 where run: "svd_all_st svd fs st = (r, st1)" by (cases "svd_all_st svd fs st")
  from svd_all_st_agrees[OF fs run]
  have e1: "extends st st1"
    and r: "case r of Inl e \<Rightarrow> svd_all svd (map ((!) st) fs) = Inl e
            | Inr ts \<Rightarrow> list_all (valid_refs st1) ts
                \<and> svd_all svd (map ((!) st) fs) = Inr (map (deref st1) ts)"
    by simp_all
  show ?thesis
  proof (cases r)
    case (Inl e)
    with r run e1 show ?thesis
      by (simp add: estimate_core_tensor_st_def estimate_core_tensor_def agrees_def)
  next
    case (Inr ts)
    with r have v: "list_all (valid_refs st1) ts"
      and sv: "svd_all svd (map ((!) st) fs) = Inr (map (deref st1) ts)" by simp_all
    have X1: "X < length st1" using X extends_length[OF e1] by simp
    have XX: "st1 ! X = st ! X" using e1 X by (rule extends_nth)
    have vs: "list_all (valid_refs st') (rev ts)" if "extends st1 st'" for st'
      using v that by (auto simp: list_all_iff intro: valid_refs_extends)
    have ds: "map (deref st') (rev ts) = rev (map (deref st1) ts)" if "extends st1 st'" for st'
      using v that by (auto simp: list_all_iff rev_map intro: deref_extends)
    have "agrees st1
       (then_run (for_each_st contract_U_st (rev ts) X st1) (\<lambda>X1 st2.
        then_run (for_each_st scale_s_st (rev ts) X1 st2) (\<lambda>X2 st3.
        then_run (for_each_st contract_Vh_st (rev ts) X2 st3) (\<lambda>X3 st4.
        if shape (st4 ! X3) = []
        then new_result (Inr (ascontiguousarray (st4 ! X3))) st4
        else (Inr X3, st4)))))
       (and_then (for_each contract_U (rev (map (deref st1) ts)) (st1 ! X)) (\<lambda>X1.
        and_then (for_each scale_s (rev (map (deref st1) ts)) X1) (\<lambda>X2.
        and_then (for_each contract_Vh (rev (map (deref st1) ts)) X2) (\<lambda>X3.
        Inr (ascontiguousarray X3)))))"
    proof (rule agrees_then_run)
      show "agrees st1 (for_each_st contract_U_st (rev ts) X st1)
              (for_each contract_U (rev (map (deref st1) ts)) (st1 ! X))"
        using agrees_for_each_st[of contract_U_st contract_U st1 "rev ts" X, OF agrees_contract_U_st]
          vs[of st1] X1 ds[of st1] by simp
    next
      fix p2 st2 assume e2: "extends st1 st2" and p2: "p2 < length st2"
      show "agrees st2
         (then_run (for_each_st scale_s_st (rev ts) p2 st2) (\<lambda>X2 st3.
          then_run (for_each_st contract_Vh_st (rev ts) X2 st3) (\<lambda>X3 st4.
          if shape (st4 ! X3) = []
          then new_result (Inr (ascontiguousarray (st4 ! X3))) st4
          else (Inr X3, st4))))
         (and_then (for_each scale_s (rev (map (deref st1) ts)) (st2 ! p2)) (\<lambda>X2.
          and_then (for_each contract_Vh (rev (map (deref st1) ts)) X2) (\<lambda>X3.
          Inr (ascontiguousarray X3))))"
      proof (rule agrees_then_run)
        show "agrees st2 (for_each_st scale_s_st (rev ts) p2 st2)
                (for_each scale_s (rev (map (deref st1) ts)) (st2 ! p2))"
          using agrees_for_each_st[of scale_s_st scale_s st2 "rev ts" p2, OF agrees_scale_s_st]
            vs[OF e2] p2 ds[OF e2] by simp
      next
        fix p3 st3 assume e3: "extends st2 st3" and p3: "p3 < length st3"
        have e13: "extends st1 st3" using e2 e3 by (rule extends_trans)
        show "agrees st3
           (then_run (for_each_st contract_Vh_st (rev ts) p3 st3) (\<lambda>X3 st4.
            if shape (st4 ! X3) = []
            then new_result (Inr (ascontiguousarray (st4 ! X3))) st4
            else (Inr X3, st4)))
           (and_then (for_each contract_Vh (rev (map (deref st1) ts)) (st3 ! p3)) (\<lambda>X3.
            Inr (ascontiguousarray X3)))"
        proof (rule agrees_then_run)
          show "agrees st3 (for_each_st contract_Vh_st (rev ts) p3 st3)
                  (for_each contract_Vh (rev (map (deref st1) ts)) (st3 ! p3))"
            using agrees_for_each_st[of contract_Vh_st contract_Vh st3 "rev ts" p3, OF agrees_contract_Vh_st]
              vs[OF e13] p3 ds[OF e13] by simp
        next
          fix p4 and st4 :: store assume p4: "p4 < length st4"
          show "agrees st4
             (if shape (st4 ! p4) = []
              then new_result (Inr (ascontiguousarray (st4 ! p4))) st4
              else (Inr p4, st4))
             (Inr (ascontiguousarray (st4 ! p4)))"
            using p4 by (simp add: agrees_new_result) (simp add: agrees_def ascontiguousarray_def)
        qed
      qed
    qed
    then show ?thesis
      using Inr run sv XX e1
      by (simp add: estimate_core_tensor_st_def estimate_core_tensor_def agrees_trans)
  qed
qed


lemma core_consistency_st_value:
  assumes fs: "list_all (\<lambda>f. f < length st) factors" and X: "X < length st"
    and w: "case weights of None \<Rightarrow> True | Some w \<Rightarrow> w < length st"
  shows "fst (core_consistency_st svd (weights, factors) X normalised st)
       = core_consistency svd (map_option ((!) st) weights, map ((!) st) factors) (st ! X) normalised"
proof (cases "rank_of (map ((!) st) factors)")
  case (Inl e)
  then show ?thesis by (simp add: core_consistency_st_def core_consistency_def)
next
  case (Inr rank)
  then obtain f fs' where factors: "factors = f # fs'"
    by (cases factors) (simp_all add: rank_of_def)
  from fs factors have f: "f < length st" and fs': "list_all (\<lambda>f. f < length st) fs'" by simp_all
  define st1 where "st1 = st @ [st ! f]"
  define dv where "dv = distribute_weights (map_option ((!) st) weights) (st ! f)"
  define step where "step = (case weights of
                       None \<Rightarrow> (Inr (), st1)
                     | Some w \<Rightarrow>
                         update_result (length st) (np_imultiply (st1 ! length st) (reshape_row (st1 ! w))) st1)"
  have step: "step = (case dv of Inl e \<Rightarrow> (Inl e, st1) | Inr a \<Rightarrow> (Inr (), st @ [a]))"
  proof (cases weights)
    case None
    then show ?thesis by (simp add: step_def dv_def distribute_weights_def st1_def)
  next
    case (Some w')
    with w have "w' < length st" by simp
    then have "st1 ! w' = st ! w'" by (simp add: st1_def nth_append)
    then show ?thesis
      using Some
      by (simp add: step_def dv_def distribute_weights_def st1_def update_result_def write_array_def
          split: sum.splits)
  qed
  have lhs: "core_consistency_st svd (weights, factors) X normalised st
      = then_run step (\<lambda>u st2.
           then_run (estimate_core_tensor_st svd (length st # fs') X st2) (\<lambda>G st3.
           case new_array (np_zeros (replicate (ndim (st3 ! X)) rank)) st3 of (T, st4) \<Rightarrow>
           then_run (update_result T (fill_diagonal (st4 ! T) 1) st4) (\<lambda>u st5.
           let denom = (if normalised then np_sum (square (st5 ! G)) else real rank)
           in (and_then (np_subtract (st5 ! G) (st5 ! T)) (\<lambda>D.
                 Inr (rsub 100 (true_divide (100 * np_sum (square D)) denom))),
               st5))))"
    using Inr by (simp add: core_consistency_st_def factors new_array_def step_def st1_def
        cong: option.case_cong)
  have rhs: "core_consistency svd (map_option ((!) st) weights, map ((!) st) factors) (st ! X) normalised
      = and_then dv (\<lambda>A.
        and_then (estimate_core_tensor svd (A # map ((!) st) fs') (st ! X)) (\<lambda>G.
        and_then (fill_diagonal (np_zeros (replicate (ndim (st ! X)) rank)) 1) (\<lambda>T.
        let denom = (if normalised then np_sum (square G) else real rank)
        in and_then (np_subtract G T) (\<lambda>D.
           Inr (rsub 100 (true_divide (100 * np_sum (square D)) denom))))))"
    using Inr by (simp add: core_consistency_def factors dv_def)
  show ?thesis
  proof (cases dv)
    case (Inl e)
    then show ?thesis by (simp add: lhs rhs step)
  next
    case dv_ok: (Inr a)
    define st2 where "st2 = st @ [a]"
    have refs: "list_all (\<lambda>f. f < length st2) (length st # fs')"
      using fs' by (auto simp: st2_def list_all_iff)
    have X2: "X < length st2" using X by (simp add: st2_def)
    have vals: "map ((!) st2) (length st # fs') = a # map ((!) st) fs'" "st2 ! X = st ! X"
      using fs' X by (auto simp: st2_def list_all_iff nth_append)
    obtain r st3 where run: "estimate_core_tensor_st svd (length st # fs') X st2 = (r, st3)"
      by (cases "estimate_core_tensor_st svd (length st # fs') X st2")
    from agrees_estimate_core_tensor_st[OF refs X2, of svd, unfolded run vals]
    have e3: "extends st2 st3"
      and r: "case r of Inl e \<Rightarrow> estimate_core_tensor svd (a # map ((!) st) fs') (st ! X) = Inl e
              | Inr p \<Rightarrow> p < length st3
                  \<and> estimate_core_tensor svd (a # map ((!) st) fs') (st ! X) = Inr (st3 ! p)"
      by (simp_all add: agrees_def cong: sum.case_cong)
    show ?thesis
    proof (cases r)
      case (Inl e)
      with r show ?thesis by (simp add: lhs rhs step dv_ok run st2_def[symmetric])
    next
      case r_ok: (Inr G)
      with r have G: "G < length st3"
        and eG: "estimate_core_tensor svd (a # map ((!) st) fs') (st ! X) = Inr (st3 ! G)" by simp_all
      have X3: "st3 ! X = st ! X" using extends_nth[OF e3 X2] vals(2) by simp
      define z where "z = np_zeros (replicate (ndim (st ! X)) rank)"
      show ?thesis
      proof (cases "fill_diagonal z 1")
        case (Inl e)
        then show ?thesis
          using G by (simp add: lhs rhs step dv_ok run st2_def[symmetric] r_ok eG new_array_def X3
              z_def[symmetric] update_result_def)
      next
        case (Inr t)
        then show ?thesis
          using G by (simp add: lhs rhs step dv_ok run st2_def[symmetric] r_ok eG new_array_def X3
              z_def[symmetric] update_result_def write_array_def nth_append Let_def)
      qed
    qed
  qed
qed


text \<open>
  C10. \<open>core_consistency\<close> changes no array of its caller: every array that is in
  the store before the call, the weights, the factor matrices and the data tensor
  among them, has the same content after it, whether the call returns or raises.
  The scaling by the weights changes the copy \<open>A\<close>, a new array. The value that
  the call returns is the one of \<open>core_consistency\<close> on the values of its arguments.
\<close>

theorem core_consistency_keeps_arrays:
  assumes "refs_in_store st cp_tensor X"
  shows "take (length st) (snd (core_consistency_st svd cp_tensor X normalised st)) = st
       \<and> fst (core_consistency_st svd cp_tensor X normalised st)
           = core_consistency svd (cp_values st cp_tensor) (st ! X) normalised"
proof -
  obtain weights factors where cp: "cp_tensor = (weights, factors)" by (cases cp_tensor)
  have "extends st (snd (core_consistency_st svd cp_tensor X normalised st))"
    by (rule extends_core_consistency_st)
  moreover have "fst (core_consistency_st svd (weights, factors) X normalised st)
       = core_consistency svd (map_option ((!) st) weights, map ((!) st) factors) (st ! X) normalised"
    by (rule core_consistency_st_value) (use assms cp in \<open>simp_all add: refs_in_store_def\<close>)
  ultimately show ?thesis by (simp add: extends_def cp cp_values_def)
qed

theorem core_consistency_keeps_arrays_witness:
  "refs_in_store
     [NDArray [2] [2, 1], NDArray [2, 2] [1, 0, 0, 1], NDArray [2, 2] [1, 0, 0, 1],
      NDArray [2, 2] [2, 1, 0, 1]] (Some 0, [1, 2]) 3
   \<and> take 4 (snd (core_consistency_st svd_example (Some 0, [1, 2]) 3 False
        [NDArray [2] [2, 1], NDArray [2, 2] [1, 0, 0, 1], NDArray [2, 2] [1, 0, 0, 1],
         NDArray [2, 2] [2, 1, 0, 1]]))
       = [NDArray [2] [2, 1], NDArray [2, 2] [1, 0, 0, 1], NDArray [2, 2] [1, 0, 0, 1],
          NDArray [2, 2] [2, 1, 0, 1]]
   \<and> snd (core_consistency_st svd_example (Some 0, [1, 2]) 3 False
        [NDArray [2] [2, 1], NDArray [2, 2] [1, 0, 0, 1], NDArray [2, 2] [1, 0, 0, 1],
         NDArray [2, 2] [2, 1, 0, 1]]) ! 4 = NDArray [2, 2] [2, 0, 0, 1]
   \<and> fst (core_consistency_st svd_example (Some 0, [1, 2]) 3 False
        [NDArray [2] [2, 1], NDArray [2, 2] [1, 0, 0, 1], NDArray [2, 2] [1, 0, 0, 1],
         NDArray [2, 2] [2, 1, 0, 1]]) = Inr (Finite (175 / 2))"
proof -
  let ?st = "[NDArray [2] [2, 1], NDArray [2, 2] [1, 0, 0, 1], NDArray [2, 2] [1, 0, 0, 1],
      NDArray [2, 2] [2, 1, 0, 1]]"
  have r: "refs_in_store ?st (Some 0, [1, 2]) 3" by code_simp
  have v: "core_consistency svd_example (cp_values ?st (Some 0, [1, 2])) (?st ! 3) False
      = Inr (Finite (175 / 2))" by code_simp
  have a: "snd (core_consistency_st svd_example (Some 0, [1, 2]) 3 False ?st) ! 4
      = NDArray [2, 2] [2, 0, 0, 1]" by code_simp
  have l: "length ?st = 4" by simp
  note k = core_consistency_keeps_arrays[OF r, of svd_example False]
  from k have "take 4 (snd (core_consistency_st svd_example (Some 0, [1, 2]) 3 False ?st)) = ?st"
    unfolding l by (rule conjunct1)
  moreover from k v
  have "fst (core_consistency_st svd_example (Some 0, [1, 2]) 3 False ?st) = Inr (Finite (175 / 2))"
    by (simp only:)
  ultimately show ?thesis using r a by (intro conjI)
qed

subsection \<open>\<open>relative_sse\<close> and \<open>fit\<close>\<close>

lemma relative_sse_any_sum:
  "relative_sse c cp X s = relative_sse c cp X None"
  by (simp add: relative_sse_def)

text \<open>
  C3. The claim has \<open>relative_sse\<close> divide by the caller's \<open>sum_squared_X\<close> when
  one is supplied. The code does not: for the data tensor \<open>[[1], [2]]\<close> (sum of
  squares 5), a model reconstructing \<open>[[1], [1]]\<close> (sse 1) and a supplied
  \<open>sum_squared_X = 10\<close>, it returns 1/5, where the claim gives 1/10.
\<close>

theorem relative_sse_ignores_supplied_sum:
  "relative_sse construct_cp_tensor
     (None, [NDArray [2, 1] [1, 1], NDArray [1, 1] [1]]) (NDArray [2, 1] [1, 2]) (Some 10)
   = Inr (Finite (1 / 5))"
  by code_simp

text \<open>
  C7. Where the sum of squares of \<open>X\<close> is not zero, \<open>fit\<close> is 1 minus
  \<open>relative_sse\<close> (and raises what \<open>relative_sse\<close> raises); when the model
  reconstructs \<open>X\<close> exactly, that is \<open>sse\<close> is 0, \<open>relative_sse\<close> is 0 and
  \<open>fit\<close> is 1.
\<close>

theorem fit_one_minus_relative_sse:
  assumes "np_sum (square X) \<noteq> 0"
  shows "(\<forall>e. relative_sse c cp X None = Inl e \<longrightarrow> fit c cp X None = Inl e)
       \<and> (\<forall>r. relative_sse c cp X None = Inr r \<longrightarrow>
            (\<exists>q. r = Finite q \<and> fit c cp X None = Inr (Finite (1 - q))))
       \<and> (sse c cp X = Inr 0 \<longrightarrow>
            relative_sse c cp X None = Inr (Finite 0) \<and> fit c cp X None = Inr (Finite 1))"
proof (cases "sse c cp X")
  case (Inl e)
  then show ?thesis by (simp add: fit_def relative_sse_def)
next
  case (Inr v)
  with assms show ?thesis
    by (auto simp: fit_def relative_sse_def true_divide_def rsub_def)
qed

theorem fit_one_minus_relative_sse_witness:
  "np_sum (square (NDArray [2, 1] [1, 2])) \<noteq> 0
   \<and> sse construct_cp_tensor (None, [NDArray [2, 1] [1, 2], NDArray [1, 1] [1]])
        (NDArray [2, 1] [1, 2]) = Inr 0
   \<and> relative_sse construct_cp_tensor (None, [NDArray [2, 1] [1, 2], NDArray [1, 1] [1]])
        (NDArray [2, 1] [1, 2]) None = Inr (Finite 0)
   \<and> fit construct_cp_tensor (None, [NDArray [2, 1] [1, 2], NDArray [1, 1] [1]])
        (NDArray [2, 1] [1, 2]) None = Inr (Finite 1)"
proof -
  have nz: "np_sum (square (NDArray [2, 1] [1, 2])) \<noteq> 0"
    by (simp add: np_sum_def square_def)
  have z: "sse construct_cp_tensor (None, [NDArray [2, 1] [1, 2], NDArray [1, 1] [1]])
        (NDArray [2, 1] [1, 2]) = Inr 0"
    by code_simp
  from fit_one_minus_relative_sse [OF nz, of construct_cp_tensor
      "(None, [NDArray [2, 1] [1, 2], NDArray [1, 1] [1]])"] nz z
  show ?thesis by blast
qed

subsection \<open>\<open>classification_accuracy\<close>\<close>

text \<open>
  C8. The classifier is fitted on \<open>(factor_matrix, labels)\<close> first. Without a
  metric the result is the fitted classifier's own \<open>score(factor_matrix, labels)\<close>;
  with a metric it is \<open>metric(labels, classifier.predict(factor_matrix))\<close>. The
  classifier is left in its fitted state.
\<close>

theorem classification_accuracy_fit_then_score:
  assumes "clf_fit k c fm labels = Inr c'"
  shows "classification_accuracy k c fm labels None = (clf_score k c' fm labels, c')
       \<and> (\<forall>m p. clf_predict k c' fm = Inr p \<longrightarrow>
            classification_accuracy k c fm labels (Some m) = (m labels p, c'))"
  using assms by (simp add: classification_accuracy_def)

theorem classification_accuracy_fit_then_score_witness:
  "clf_fit first_label None (NDArray [3, 1] [5, 6, 7]) [1, 1, 0] = Inr (Some 1)
   \<and> classification_accuracy first_label None (NDArray [3, 1] [5, 6, 7]) [1, 1, 0] None
       = (Inr (2 / 3), Some 1)
   \<and> classification_accuracy first_label None (NDArray [3, 1] [5, 6, 7]) [1, 1, 0] (Some mismatches)
       = (Inr 1, Some 1)"
proof -
  have f: "clf_fit first_label None (NDArray [3, 1] [5, 6, 7]) [1, 1, 0] = Inr (Some 1)"
    by (simp add: first_label_def first_label_fit_def)
  have p: "clf_predict first_label (Some 1) (NDArray [3, 1] [5, 6, 7]) = Inr [1, 1, 1]"
    by (simp add: first_label_def first_label_predict_def numeral_3_eq_3)
  have s: "clf_score first_label (Some 1) (NDArray [3, 1] [5, 6, 7]) [1, 1, 0] = Inr (2 / 3)"
    by (simp add: first_label_def first_label_score_def)
  have m: "mismatches [1, 1, 0] [1, 1, 1] = Inr 1"
    by (simp add: mismatches_def)
  from classification_accuracy_fit_then_score [OF f] p s m f
  show ?thesis by simp
qed

subsection \<open>\<open>percentage_variation\<close>\<close>

lemma initial_temp_raises: "\<exists>e. initial_temp weights rank = Inl e"
proof (cases weights)
  case None
  then show ?thesis by (simp add: initial_temp_def np_ones_dtype_def)
next
  case (Some w)
  show ?thesis
  proof (cases "truth_value w")
    case (Inl e)
    with Some show ?thesis by (simp add: initial_temp_def)
  next
    case (Inr b)
    have "\<exists>e. weighted_temp w rank = Inl e"
      by (cases "reshape w [rank, 1]") (simp_all add: weighted_temp_def name_weight_def)
    with Some Inr show ?thesis
      by (cases b) (simp_all add: initial_temp_def np_ones_dtype_def)
  qed
qed

lemma percentage_variation_raises: "\<exists>e. percentage_variation cp X method = Inl e"
proof -
  obtain weights factor_matrices where cp: "cp = (weights, factor_matrices)"
    by (cases cp)
  show ?thesis
  proof (cases "rank_of factor_matrices")
    case (Inl e)
    with cp show ?thesis by (simp add: percentage_variation_def)
  next
    case (Inr rank)
    from initial_temp_raises obtain e where "initial_temp weights rank = Inl e" by blast
    with cp Inr show ?thesis by (simp add: percentage_variation_def)
  qed
qed

text \<open>
  C4. The claim has \<open>percentage_variation\<close> return the per-component sums of
  squares, normalised as the method asks. The code returns nothing: for the
  one-component model with both factor matrices \<open>[[1]]\<close>, no weights, the data
  tensor \<open>[[1]]\<close> and \<open>method="model"\<close>, where the claim gives \<open>[1.0]\<close>, it raises
  the TypeError of \<open>np.ones(rank, rank)\<close>.
\<close>

theorem percentage_variation_model_raises:
  "percentage_variation (None, [NDArray [1, 1] [1], NDArray [1, 1] [1]])
     (Some (NDArray [1, 1] [1])) ''model''
   = Inl (TypeError ''Cannot interpret the integer as a data type'')"
  by (simp add: percentage_variation_def rank_of_def ndim_def initial_temp_def np_ones_dtype_def)

text \<open>
  C5. When the weights are \<open>None\<close> and the rank can be read off the first factor
  matrix, \<open>percentage_variation\<close> raises the TypeError of \<open>np.ones(rank, rank)\<close>,
  whatever the data tensor and the method are: the loop over the factor matrices,
  the dispatch on the method and the two documented errors are not reached.
\<close>

theorem percentage_variation_no_weights:
  assumes "rank_of factor_matrices = Inr rank"
  shows "initial_temp None rank = Inl (TypeError ''Cannot interpret the integer as a data type'')
       \<and> percentage_variation (None, factor_matrices) X method
           = Inl (TypeError ''Cannot interpret the integer as a data type'')"
  using assms by (simp add: percentage_variation_def initial_temp_def np_ones_dtype_def)

theorem percentage_variation_no_weights_witness:
  "rank_of [NDArray [2, 1] [3, 4], NDArray [1, 1] [1]] = Inr 1
   \<and> percentage_variation (None, [NDArray [2, 1] [3, 4], NDArray [1, 1] [1]]) None ''data''
       = Inl (TypeError ''Cannot interpret the integer as a data type'')"
proof -
  have r: "rank_of [NDArray [2, 1] [3, 4], NDArray [1, 1] [1]] = Inr 1"
    by (simp add: rank_of_def ndim_def)
  from percentage_variation_no_weights [OF r] r show ?thesis by simp
qed

text \<open>
  C6. The claim has every method other than "data", "model" and "both" end in the
  ValueError that names the three. The code does not get there: for the method
  "bogus", on a one-component model without weights, it raises the TypeError of
  \<open>np.ones(rank, rank)\<close>.
\<close>

theorem percentage_variation_bogus_method:
  "percentage_variation (None, [NDArray [1, 1] [1], NDArray [1, 1] [1]]) None ''bogus''
   = Inl (TypeError ''Cannot interpret the integer as a data type'')
   \<and> percentage_variation (None, [NDArray [1, 1] [1], NDArray [1, 1] [1]]) None ''bogus''
   \<noteq> Inl (ValueError ''Method must be either 'data', 'model' or 'both'')"
  by (simp add: percentage_variation_def rank_of_def ndim_def initial_temp_def np_ones_dtype_def)

end
